theory Spec2Isabelle
  imports Complex_Main
begin

section \<open>JavaScript values\<close>

text \<open>
  The filter sanitizer and the response projector of the Pylon MCP server work on
  untyped JSON (\<^verbatim>\<open>Record<string, unknown>\<close>). A value is modelled by \<open>json\<close>.
  An object is the list of its own enumerable properties in the order of
  \<^verbatim>\<open>Object.entries\<close>; the keys of an object are pairwise different. A number is
  the rational value of the double that JSON gives. Strings are lists of 8-bit characters, so
  the model covers the strings whose UTF-16 code units are below 256, and \<open>length\<close>
  is the \<^verbatim>\<open>.length\<close> of such a string.
\<close>

datatype json =
    JUndefined
  | JNull
  | JBool bool
  | JNum rat
  | JStr string
  | JArr "json list"
  | JObj "(string \<times> json) list"

type_synonym object = "(string \<times> json) list"

text \<open>Every \<^verbatim>\<open>throw\<close> of the source is a value: \<^verbatim>\<open>new Error(message)\<close>, or the
  \<^verbatim>\<open>TypeError\<close> the runtime raises when a value that is not callable is called.\<close>

datatype error = Error string | TypeError string

fun message :: "error \<Rightarrow> string" where
  "message (Error m) = m"
| "message (TypeError m) = m"

text \<open>\<^verbatim>\<open>Object.keys(o)\<close>.\<close>

definition own_keys :: "object \<Rightarrow> string list" where
  "own_keys obj = map fst obj"

text \<open>Defining or overwriting the own property \<open>k\<close>: an existing key keeps its place,
  a new key goes to the end.\<close>

fun obj_set :: "object \<Rightarrow> string \<Rightarrow> json \<Rightarrow> object" where
  "obj_set [] k v = [(k, v)]"
| "obj_set ((k', v') # rest) k v =
     (if k' = k then (k, v) # rest else (k', v') # obj_set rest k v)"

text \<open>The assignment \<^verbatim>\<open>o[k] = v\<close> on an object created by a literal. The key
  \<^verbatim>\<open>__proto__\<close> is the accessor inherited from \<^verbatim>\<open>Object.prototype\<close>: assigning to it
  changes at most the prototype and never creates an own property.\<close>

definition assign :: "object \<Rightarrow> string \<Rightarrow> json \<Rightarrow> object" where
  "assign obj k v = (if k = ''__proto__'' then obj else obj_set obj k v)"

text \<open>The property read \<^verbatim>\<open>v[k]\<close> or \<^verbatim>\<open>v.k\<close> for a key that no prototype defines
  (\<^verbatim>\<open>time_range\<close>, \<^verbatim>\<open>start\<close>, \<^verbatim>\<open>end\<close>, \<^verbatim>\<open>id\<close>, the field names of a record)
  on a value that is neither \<^verbatim>\<open>null\<close> nor \<^verbatim>\<open>undefined\<close>.\<close>

fun get_prop :: "json \<Rightarrow> string \<Rightarrow> json" where
  "get_prop (JObj obj) k = (case map_of obj k of Some v \<Rightarrow> v | None \<Rightarrow> JUndefined)"
| "get_prop v k = JUndefined"

text \<open>Optional chaining \<^verbatim>\<open>v?.k\<close>.\<close>

definition opt_chain :: "json \<Rightarrow> string \<Rightarrow> json" where
  "opt_chain v k = (if v = JUndefined \<or> v = JNull then JUndefined else get_prop v k)"

text \<open>Nullish coalescing \<^verbatim>\<open>a ?? b\<close>.\<close>

definition nullish :: "json \<Rightarrow> json \<Rightarrow> json" where
  "nullish a b = (if a = JUndefined \<or> a = JNull then b else a)"

text \<open>\<^verbatim>\<open>ToBoolean\<close>, as used by \<^verbatim>\<open>if (v)\<close>, \<^verbatim>\<open>!v\<close> and \<^verbatim>\<open>a && b\<close>.\<close>

fun truthy :: "json \<Rightarrow> bool" where
  "truthy JUndefined = False"
| "truthy JNull = False"
| "truthy (JBool b) = b"
| "truthy (JNum n) = (n \<noteq> 0)"
| "truthy (JStr s) = (s \<noteq> [])"
| "truthy (JArr xs) = True"
| "truthy (JObj obj) = True"

text \<open>\<^verbatim>\<open>typeof v === 'object'\<close>.\<close>

fun typeof_object :: "json \<Rightarrow> bool" where
  "typeof_object JNull = True"
| "typeof_object (JArr xs) = True"
| "typeof_object (JObj obj) = True"
| "typeof_object v = False"

text \<open>Decimal rendering of an integer, as \<^verbatim>\<open>String(n)\<close> and a template literal give it
  for the length of a string and for a constant of the source.\<close>

definition digit_char :: "nat \<Rightarrow> char" where
  "digit_char d = ''0123456789'' ! d"

fun show_nat :: "nat \<Rightarrow> string" where
  "show_nat n = (if n < 10 then [digit_char n] else show_nat (n div 10) @ [digit_char (n mod 10)])"

declare show_nat.simps [simp del]

definition show_int :: "int \<Rightarrow> string" where
  "show_int i = (if i < 0 then CHR ''-'' # show_nat (nat (- i)) else show_nat (nat i))"

section \<open>The runtime and the remote service\<close>

text \<open>
  What the code takes from the JavaScript runtime and from the network is a parameter
  of the model:
  \<^item> \<open>Date_getTime v\<close> is \<^verbatim>\<open>new Date(v).getTime()\<close> in milliseconds, \<open>None\<close> for
    \<^verbatim>\<open>NaN\<close> (an invalid date);
  \<^item> \<open>toFixed1 q\<close> is \<^verbatim>\<open>x.toFixed(1)\<close> for the double \<open>x\<close> nearest to \<open>q\<close>;
  \<^item> \<open>ToString_number q\<close> is \<^verbatim>\<open>String(x)\<close> for a number \<open>x\<close> that is a fraction or
    beyond \<^verbatim>\<open>2 ** 53\<close>, where the digits are those of the shortest decimal that reads
    back as \<open>x\<close>, in exponent form from \<^verbatim>\<open>1e21\<close>;
  \<^item> \<open>ToString_object v\<close> is \<^verbatim>\<open>String(v)\<close> for an array or an object;
  \<^item> \<open>fetch req\<close> is the answer of the remote service to a request.
\<close>

record http_request =
  http_method :: string
  http_path :: string
  http_body :: json

datatype http_response =
    HttpOk json
  | HttpNotOk string string string
  | Rejected error

record platform =
  Date_getTime :: "json \<Rightarrow> int option"
  toFixed1 :: "rat \<Rightarrow> string"
  ToString_number :: "rat \<Rightarrow> string"
  ToString_object :: "json \<Rightarrow> string"
  fetch :: "http_request \<Rightarrow> http_response"

text \<open>\<^verbatim>\<open>String(x)\<close> for a number: an integer of magnitude at most \<^verbatim>\<open>2 ** 53\<close> is
  printed in plain digits.\<close>

definition safe_integer :: "rat \<Rightarrow> bool" where
  "safe_integer q \<longleftrightarrow> q = rat_of_int \<lfloor>q\<rfloor> \<and> \<bar>q\<bar> \<le> 9007199254740992"

definition Number_String :: "platform \<Rightarrow> rat \<Rightarrow> string" where
  "Number_String P q = (if safe_integer q then show_int \<lfloor>q\<rfloor> else ToString_number P q)"

text \<open>\<^verbatim>\<open>String(v)\<close>, which is also the interpolation \<^verbatim>\<open>${v}\<close> of a template literal.\<close>

fun js_String :: "platform \<Rightarrow> json \<Rightarrow> string" where
  "js_String P JUndefined = ''undefined''"
| "js_String P JNull = ''null''"
| "js_String P (JBool b) = (if b then ''true'' else ''false'')"
| "js_String P (JNum n) = Number_String P n"
| "js_String P (JStr s) = s"
| "js_String P v = ToString_object P v"

section \<open>Filter sanitizer\<close>

subsection \<open>Time ranges\<close>

definition MAX_TIME_RANGE_DAYS :: int where
  "MAX_TIME_RANGE_DAYS = 30"

definition MS_PER_DAY :: int where
  "MS_PER_DAY = 24 * 60 * 60 * 1000"

text \<open>
  \<^verbatim>\<open>validateTimeRange(startTime, endTime)\<close>: \<open>Inr ()\<close> when it returns, \<open>Inl\<close> the
  error it throws. The time values are integers of magnitude at most \<open>8.64e15\<close>, and
  the quotient \<^verbatim>\<open>diffDays\<close> is compared with 30 exactly: 30 days is a whole number of
  milliseconds, and the double division is monotone.
\<close>

definition validateTimeRange :: "platform \<Rightarrow> json \<Rightarrow> json \<Rightarrow> error + unit" where
  "validateTimeRange P startTime endTime =
     (case Date_getTime P startTime of
        None \<Rightarrow> Inl (Error (''Invalid start_time format: '' @ js_String P startTime
                  @ ''. Use RFC3339 format (e.g., 2024-01-01T00:00:00Z)''))
      | Some start \<Rightarrow>
         (case Date_getTime P endTime of
            None \<Rightarrow> Inl (Error (''Invalid end_time format: '' @ js_String P endTime
                      @ ''. Use RFC3339 format (e.g., 2024-01-31T00:00:00Z)''))
          | Some end \<Rightarrow>
              if start \<ge> end then Inl (Error ''start_time must be before end_time'')
              else
                let diffDays = rat_of_int (end - start) / rat_of_int MS_PER_DAY
                in if diffDays > rat_of_int MAX_TIME_RANGE_DAYS
                   then Inl (Error (''Time range cannot exceed '' @ show_int MAX_TIME_RANGE_DAYS
                          @ '' days. Requested: '' @ toFixed1 P diffDays
                          @ '' days. Try a shorter range like 28 days.''))
                   else Inr ()))"

text \<open>\<^verbatim>\<open>validateFilterTimeRanges(filter)\<close>: the loop over \<^verbatim>\<open>Object.entries(filter)\<close>;
  the first field that fails ends it.\<close>

fun validateFilterTimeRanges :: "platform \<Rightarrow> object \<Rightarrow> error + unit" where
  "validateFilterTimeRanges P [] = Inr ()"
| "validateFilterTimeRanges P ((fieldName, fieldValue) # rest) =
     (case fieldValue of
        JObj fieldObj \<Rightarrow>
          (let timeRange = get_prop (JObj fieldObj) ''time_range''
           in if truthy timeRange
                 \<and> truthy (get_prop timeRange ''start'') \<and> truthy (get_prop timeRange ''end'')
              then (case validateTimeRange P (get_prop timeRange ''start'') (get_prop timeRange ''end'') of
                      Inl e \<Rightarrow> Inl (Error (''Invalid time_range for '' @ fieldName @ '': ''
                                 @ message e))
                    | Inr u \<Rightarrow> validateFilterTimeRanges P rest)
              else validateFilterTimeRanges P rest)
      | _ \<Rightarrow> validateFilterTimeRanges P rest)"

subsection \<open>Operator whitelist\<close>

definition VALID_OPERATORS :: "(string \<times> string list) list" where
  "VALID_OPERATORS = [
     (''created_at'', [''time_is_after'', ''time_is_before'', ''time_range'']),
     (''resolved_at'', [''time_is_after'', ''time_is_before'', ''time_range'']),
     (''latest_message_activity_at'', [''time_is_after'', ''time_is_before'', ''time_range'']),
     (''title'', [''string_contains'', ''string_does_not_contain'']),
     (''id'', [''equals'', ''in'', ''not_in'']),
     (''account_id'', [''equals'', ''in'', ''not_in'', ''is_set'', ''is_unset'']),
     (''requester_id'', [''equals'', ''in'', ''not_in'', ''is_set'', ''is_unset'']),
     (''assignee_id'', [''equals'', ''in'', ''not_in'', ''is_set'', ''is_unset'']),
     (''team_id'', [''equals'', ''in'', ''not_in'', ''is_set'', ''is_unset'']),
     (''ticket_form_id'', [''equals'', ''in'', ''not_in'', ''is_set'', ''is_unset'']),
     (''follower_user_id'', [''equals'', ''in'', ''not_in'']),
     (''follower_contact_id'', [''equals'', ''in'', ''not_in'']),
     (''state'', [''equals'', ''in'', ''not_in'']),
     (''issue_type'', [''equals'', ''in'', ''not_in'']),
     (''tags'', [''contains'', ''does_not_contain'', ''in'', ''not_in'']),
     (''domains'', [''contains'', ''does_not_contain'']),
     (''name'', [''equals'', ''string_contains'']),
     (''external_ids'', [''equals'', ''in'', ''not_in'', ''is_set'', ''is_unset'']),
     (''email'', [''equals'', ''string_contains'', ''in'', ''not_in''])]"

text \<open>
  \<^verbatim>\<open>VALID_OPERATORS\<close> is an object literal, so the read \<^verbatim>\<open>VALID_OPERATORS[fieldName]\<close>
  also finds what the literal inherits from \<^verbatim>\<open>Object.prototype\<close>. Those members are
  functions (and, for \<^verbatim>\<open>__proto__\<close>, the prototype itself): truthy values without a
  method \<^verbatim>\<open>has\<close>.
\<close>

definition Object_prototype_keys :: "string list" where
  "Object_prototype_keys = [''constructor'', ''__defineGetter__'', ''__defineSetter__'',
     ''hasOwnProperty'', ''__lookupGetter__'', ''__lookupSetter__'', ''isPrototypeOf'',
     ''propertyIsEnumerable'', ''toString'', ''valueOf'', ''__proto__'', ''toLocaleString'']"

datatype table_entry = NoEntry | OperatorSet "string list" | Inherited

definition VALID_OPERATORS_get :: "string \<Rightarrow> table_entry" where
  "VALID_OPERATORS_get fieldName =
     (case map_of VALID_OPERATORS fieldName of
        Some ops \<Rightarrow> OperatorSet ops
      | None \<Rightarrow> if fieldName \<in> set Object_prototype_keys then Inherited else NoEntry)"

text \<open>\<^verbatim>\<open>validOperators.has(op)\<close> for a truthy \<^verbatim>\<open>validOperators\<close>.\<close>

fun has :: "table_entry \<Rightarrow> string \<Rightarrow> error + bool" where
  "has (OperatorSet ops) op = Inr (op \<in> set ops)"
| "has e op = Inl (TypeError ''validOperators.has is not a function'')"

subsection \<open>Cleaning\<close>

text \<open>The inner loop of \<^verbatim>\<open>cleanFilter\<close> over the operators of a known field; both
  branches of the source's test on \<^verbatim>\<open>time_range\<close> store the operand unchanged.\<close>

fun cleanOperators :: "table_entry \<Rightarrow> object \<Rightarrow> object \<Rightarrow> error + object" where
  "cleanOperators validOperators [] cleanedOperators = Inr cleanedOperators"
| "cleanOperators validOperators ((op, opValue) # rest) cleanedOperators =
     (case has validOperators op of
        Inl e \<Rightarrow> Inl e
      | Inr valid \<Rightarrow>
          if valid \<and> opValue \<noteq> JUndefined \<and> opValue \<noteq> JNull
          then (if op = ''time_range'' \<and> typeof_object opValue
                then cleanOperators validOperators rest (assign cleanedOperators op opValue)
                else cleanOperators validOperators rest (assign cleanedOperators op opValue))
          else cleanOperators validOperators rest cleanedOperators)"

text \<open>
  \<^verbatim>\<open>cleanFilter(obj)\<close> and its loop over \<^verbatim>\<open>Object.entries(obj)\<close>, which carries
  \<^verbatim>\<open>result\<close>. The value is \<open>Inr None\<close> for \<^verbatim>\<open>undefined\<close>, \<open>Inr (Some result)\<close>
  for an object, and \<open>Inl\<close> the error when the call throws.
\<close>

function cleanFilter :: "object \<Rightarrow> error + object option"
  and cleanFilter_loop :: "object \<Rightarrow> object \<Rightarrow> error + object"
where
  "cleanFilter obj =
     (case cleanFilter_loop obj [] of
        Inl e \<Rightarrow> Inl e
      | Inr result \<Rightarrow> Inr (if length (own_keys result) > 0 then Some result else None))"
| "cleanFilter_loop [] result = Inr result"
| "cleanFilter_loop ((fieldName, fieldValue) # rest) result =
     (if fieldValue = JUndefined \<or> fieldValue = JNull then cleanFilter_loop rest result
      else case fieldValue of
        JObj fieldObj \<Rightarrow>
          if VALID_OPERATORS_get fieldName \<noteq> NoEntry
          then (case cleanOperators (VALID_OPERATORS_get fieldName) fieldObj [] of
                  Inl e \<Rightarrow> Inl e
                | Inr cleanedOperators \<Rightarrow>
                    if length (own_keys cleanedOperators) > 0
                    then cleanFilter_loop rest (assign result fieldName (JObj cleanedOperators))
                    else cleanFilter_loop rest result)
          else (case cleanFilter fieldObj of
                  Inl e \<Rightarrow> Inl e
                | Inr cleaned \<Rightarrow>
                    if cleaned \<noteq> None \<and> length (own_keys (the cleaned)) > 0
                    then cleanFilter_loop rest (assign result fieldName (JObj (the cleaned)))
                    else cleanFilter_loop rest result)
      | _ \<Rightarrow> cleanFilter_loop rest (assign result fieldName fieldValue))"
  by pat_completeness auto
termination
  by (relation "measure (\<lambda>x. case x of
          Inl obj \<Rightarrow> Suc (size_list (size_prod (\<lambda>k. 0) size) obj)
        | Inr (obj, result) \<Rightarrow> size_list (size_prod (\<lambda>k. 0) size) obj)") auto

section \<open>Client\<close>

text \<open>
  The only effect of the client is the network: the state is the list of the requests
  sent so far, oldest first. \<^verbatim>\<open>request\<close> sends one request and throws on a response
  that is not \<^verbatim>\<open>ok\<close>. The two \<^verbatim>\<open>console.error\<close> lines of \<^verbatim>\<open>searchIssues\<close> write to
  the diagnostic stream only and are left out.
\<close>

type_synonym network = "http_request list"

definition request :: "platform \<Rightarrow> string \<Rightarrow> string \<Rightarrow> json \<Rightarrow> network \<Rightarrow> (error + json) \<times> network" where
  "request P method path body net =
     (let req = \<lparr>http_method = method, http_path = path, http_body = body\<rparr>
      in case fetch P req of
           HttpOk j \<Rightarrow> (Inr j, net @ [req])
         | HttpNotOk status statusText errorText \<Rightarrow>
             (Inl (Error (''Pylon API error: '' @ status @ '' '' @ statusText @ '' - '' @ errorText)),
              net @ [req])
         | Rejected e \<Rightarrow> (Inl e, net @ [req]))"

record PaginationParams =
  params_limit :: "rat option"
  params_cursor :: "string option"

text \<open>\<^verbatim>\<open>params?.limit\<close> and \<^verbatim>\<open>params?.cursor\<close>.\<close>

definition limit_of :: "PaginationParams option \<Rightarrow> json" where
  "limit_of params =
     (case params of None \<Rightarrow> JUndefined
      | Some p \<Rightarrow> (case params_limit p of None \<Rightarrow> JUndefined | Some n \<Rightarrow> JNum n))"

definition cursor_of :: "PaginationParams option \<Rightarrow> json" where
  "cursor_of params =
     (case params of None \<Rightarrow> JUndefined
      | Some p \<Rightarrow> (case params_cursor p of None \<Rightarrow> JUndefined | Some c \<Rightarrow> JStr c))"

text \<open>The request body \<^verbatim>\<open>{filter: cleanedFilter ?? {}, limit: ..., cursor: ...}\<close>.\<close>

definition search_body :: "object option \<Rightarrow> PaginationParams option \<Rightarrow> json" where
  "search_body cleanedFilter params =
     JObj [(''filter'', case cleanedFilter of None \<Rightarrow> JObj [] | Some c \<Rightarrow> JObj c),
           (''limit'', limit_of params),
           (''cursor'', cursor_of params)]"

definition searchAccounts ::
  "platform \<Rightarrow> object \<Rightarrow> PaginationParams option \<Rightarrow> network \<Rightarrow> (error + json) \<times> network" where
  "searchAccounts P filterRecord params net =
     (case cleanFilter filterRecord of
        Inl e \<Rightarrow> (Inl e, net)
      | Inr cleanedFilter \<Rightarrow>
          request P ''POST'' ''/accounts/search'' (search_body cleanedFilter params) net)"

definition searchContacts ::
  "platform \<Rightarrow> object \<Rightarrow> PaginationParams option \<Rightarrow> network \<Rightarrow> (error + json) \<times> network" where
  "searchContacts P filterRecord params net =
     (case cleanFilter filterRecord of
        Inl e \<Rightarrow> (Inl e, net)
      | Inr cleanedFilter \<Rightarrow>
          request P ''POST'' ''/contacts/search'' (search_body cleanedFilter params) net)"

definition searchIssues ::
  "platform \<Rightarrow> object \<Rightarrow> PaginationParams option \<Rightarrow> network \<Rightarrow> (error + json) \<times> network" where
  "searchIssues P filterRecord params net =
     (case validateFilterTimeRanges P filterRecord of
        Inl e \<Rightarrow> (Inl e, net)
      | Inr u \<Rightarrow>
          (case cleanFilter filterRecord of
             Inl e \<Rightarrow> (Inl e, net)
           | Inr cleanedFilter \<Rightarrow>
               request P ''POST'' ''/issues/search'' (search_body cleanedFilter params) net))"

definition getIssue :: "platform \<Rightarrow> string \<Rightarrow> network \<Rightarrow> (error + json) \<times> network" where
  "getIssue P ident net = request P ''GET'' (''/issues/'' @ ident) JUndefined net"

section \<open>Response projector\<close>

subsection \<open>Text\<close>

text \<open>The characters below 256 that the regular expression class \<^verbatim>\<open>\s\<close> and
  \<^verbatim>\<open>String.prototype.trim\<close> treat as white space: tab, line feed, vertical tab, form
  feed, carriage return, space and no-break space.\<close>

definition is_space :: "char \<Rightarrow> bool" where
  "is_space c \<longleftrightarrow> c \<in> set [CHR 0x09, CHR 0x0A, CHR 0x0B, CHR 0x0C, CHR 0x0D, CHR 0x20, CHR 0xA0]"

text \<open>\<^verbatim>\<open>s.replace(/<[^>]*>/g, ' ')\<close>: from the left, a \<^verbatim>\<open><\<close> with a \<^verbatim>\<open>>\<close> somewhere
  after it starts a match that ends at the first such \<^verbatim>\<open>>\<close>.\<close>

function replace_tags :: "string \<Rightarrow> string" where
  "replace_tags [] = []"
| "replace_tags (c # cs) =
     (if c = CHR ''<'' \<and> CHR ''>'' \<in> set cs
      then CHR '' '' # replace_tags (tl (dropWhile (\<lambda>x. x \<noteq> CHR ''>'') cs))
      else c # replace_tags cs)"
  by pat_completeness auto
termination
proof (relation "measure length")
  fix c :: char and cs :: string
  have "length (tl (dropWhile (\<lambda>x. x \<noteq> CHR ''>'') cs)) \<le> length cs"
    using length_dropWhile_le[of "\<lambda>x. x \<noteq> CHR ''>''" cs] by simp
  then show "(tl (dropWhile (\<lambda>x. x \<noteq> CHR ''>'') cs), c # cs) \<in> measure length"
    by simp
qed simp_all

text \<open>\<^verbatim>\<open>s.replace(/\s+/g, ' ')\<close>: every maximal run of white space becomes one space.\<close>

function replace_whitespace :: "string \<Rightarrow> string" where
  "replace_whitespace [] = []"
| "replace_whitespace (c # cs) =
     (if is_space c then CHR '' '' # replace_whitespace (dropWhile is_space cs)
      else c # replace_whitespace cs)"
  by pat_completeness auto
termination
proof (relation "measure length")
  fix c :: char and cs :: string
  show "(dropWhile is_space cs, c # cs) \<in> measure length"
    using length_dropWhile_le[of is_space cs] by simp
qed simp_all

text \<open>\<^verbatim>\<open>s.trim()\<close>.\<close>

definition trim :: "string \<Rightarrow> string" where
  "trim s = rev (dropWhile is_space (rev (dropWhile is_space s)))"

text \<open>\<^verbatim>\<open>s.slice(0, e)\<close>; a negative end counts from the end of the string.\<close>

definition slice0 :: "string \<Rightarrow> int \<Rightarrow> string" where
  "slice0 s e = (if e < 0 then take (nat (int (length s) + e)) s else take (nat e) s)"

definition MAX_BODY_LENGTH :: int where
  "MAX_BODY_LENGTH = 500"

text \<open>\<^verbatim>\<open>stripHtmlAndTruncate(html, maxLength)\<close>. The argument is what the caller read
  from the raw record; a truthy value that is not a string has no method
  \<^verbatim>\<open>replace\<close>.\<close>

definition stripHtmlAndTruncate :: "json \<Rightarrow> int \<Rightarrow> error + string" where
  "stripHtmlAndTruncate html maxLength =
     (if \<not> truthy html then Inr []
      else case html of
        JStr h \<Rightarrow>
          (let text = trim (replace_whitespace (replace_tags h))
           in if int (length text) \<le> maxLength then Inr text
              else Inr (slice0 text (maxLength - 3) @ ''...''))
      | _ \<Rightarrow> Inl (TypeError ''html.replace is not a function''))"

subsection \<open>Identifier extraction\<close>

text \<open>\<^verbatim>\<open>raw[k]\<close> for a raw record.\<close>

definition obj_get :: "object \<Rightarrow> string \<Rightarrow> json" where
  "obj_get raw k = get_prop (JObj raw) k"

text \<open>\<^verbatim>\<open>typeof v === 'string'\<close>.\<close>

fun typeof_string :: "json \<Rightarrow> bool" where
  "typeof_string (JStr s) = True"
| "typeof_string v = False"

definition extractAccountId :: "object \<Rightarrow> json" where
  "extractAccountId issue =
     (if typeof_string (obj_get issue ''account_id'') then obj_get issue ''account_id''
      else opt_chain (obj_get issue ''account'') ''id'')"

definition extractAssigneeId :: "object \<Rightarrow> json" where
  "extractAssigneeId issue =
     (if typeof_string (obj_get issue ''assignee_id'') then obj_get issue ''assignee_id''
      else nullish (opt_chain (obj_get issue ''assignee'') ''id'') JNull)"

definition extractRequesterId :: "object \<Rightarrow> json" where
  "extractRequesterId issue =
     (if typeof_string (obj_get issue ''requester_id'') then obj_get issue ''requester_id''
      else nullish (opt_chain (obj_get issue ''requester'') ''id'') JNull)"

definition extractTeamId :: "object \<Rightarrow> json" where
  "extractTeamId issue =
     (if typeof_string (obj_get issue ''team_id'') then obj_get issue ''team_id''
      else nullish (opt_chain (obj_get issue ''team'') ''id'') JNull)"

subsection \<open>Views\<close>

text \<open>A view is the object its literal builds. \<^verbatim>\<open>{...base, k1: v1, ...}\<close> copies the
  own properties of \<open>base\<close> and then defines the listed ones in order.\<close>

definition spread :: "object \<Rightarrow> object \<Rightarrow> object" where
  "spread base props = foldl (\<lambda>obj (k, v). obj_set obj k v) base props"

definition toIssueMinimal :: "object \<Rightarrow> object" where
  "toIssueMinimal raw = spread [] [
     (''id'', obj_get raw ''id''),
     (''number'', obj_get raw ''number''),
     (''title'', obj_get raw ''title''),
     (''state'', obj_get raw ''state''),
     (''link'', obj_get raw ''link''),
     (''created_at'', obj_get raw ''created_at''),
     (''assignee_id'', extractAssigneeId raw),
     (''account_id'', extractAccountId raw),
     (''tags'', obj_get raw ''tags'')]"

definition toIssueStandard :: "object \<Rightarrow> object" where
  "toIssueStandard raw = spread (toIssueMinimal raw) [
     (''requester_id'', extractRequesterId raw),
     (''team_id'', extractTeamId raw),
     (''resolution_time'', obj_get raw ''resolution_time''),
     (''latest_message_time'', obj_get raw ''latest_message_time''),
     (''first_response_time'', obj_get raw ''first_response_time''),
     (''customer_portal_visible'', obj_get raw ''customer_portal_visible''),
     (''source'', obj_get raw ''source''),
     (''type'', obj_get raw ''type'')]"

definition toIssueFull :: "object \<Rightarrow> error + object" where
  "toIssueFull raw =
     (case stripHtmlAndTruncate (obj_get raw ''body_html'') MAX_BODY_LENGTH of
        Inl e \<Rightarrow> Inl e
      | Inr body \<Rightarrow> Inr (spread (toIssueStandard raw) [(''body_html'', JStr body)]))"

definition toAccountMinimal :: "object \<Rightarrow> object" where
  "toAccountMinimal raw =
     (let owner = obj_get raw ''owner''
      in spread [] [
           (''id'', obj_get raw ''id''),
           (''name'', obj_get raw ''name''),
           (''primary_domain'', obj_get raw ''primary_domain''),
           (''owner_id'', nullish (opt_chain owner ''id'') (obj_get raw ''owner_id'')),
           (''tags'', obj_get raw ''tags'')])"

definition toAccountStandard :: "object \<Rightarrow> object" where
  "toAccountStandard raw = spread (toAccountMinimal raw) [
     (''domains'', obj_get raw ''domains''),
     (''created_at'', obj_get raw ''created_at''),
     (''type'', obj_get raw ''type'')]"

definition toContactMinimal :: "object \<Rightarrow> object" where
  "toContactMinimal raw =
     (let account = obj_get raw ''account''
      in spread [] [
           (''id'', obj_get raw ''id''),
           (''name'', obj_get raw ''name''),
           (''email'', obj_get raw ''email''),
           (''account_id'', nullish (opt_chain account ''id'') (obj_get raw ''account_id'')),
           (''portal_role'', obj_get raw ''portal_role'')])"

definition toContactStandard :: "object \<Rightarrow> object" where
  "toContactStandard raw = spread (toContactMinimal raw) [
     (''emails'', obj_get raw ''emails''),
     (''avatar_url'', obj_get raw ''avatar_url''),
     (''created_at'', obj_get raw ''created_at'')]"

section \<open>Tool handlers\<close>

subsection \<open>Tables\<close>

text \<open>The table formatters take typed views (\<^verbatim>\<open>IssueMinimal[]\<close> and so on). A field
  that may be \<^verbatim>\<open>null\<close> or \<^verbatim>\<open>undefined\<close> is an \<open>option\<close>: the formatters do not tell
  the two apart.\<close>

record IssueMinimal =
  issue_id :: string
  issue_number :: "rat option"
  issue_title :: string
  issue_state :: string
  issue_link :: "string option"
  issue_created_at :: "string option"
  issue_assignee_id :: "string option"
  issue_account_id :: "string option"
  issue_tags :: "string list option"

record AccountMinimal =
  account_id :: string
  account_name :: string
  account_primary_domain :: "string option"
  account_owner_id :: "string option"
  account_tags :: "string list option"

record ContactMinimal =
  contact_id :: string
  contact_name :: string
  contact_email :: "string option"
  contact_account_id :: "string option"
  contact_portal_role :: "string option"

definition MAX_TITLE_LENGTH :: int where
  "MAX_TITLE_LENGTH = 60"

definition MAX_NAME_LENGTH :: int where
  "MAX_NAME_LENGTH = 40"

definition pipe :: char where
  "pipe = CHR ''|''"

definition backslash :: char where
  "backslash = CHR 0x5C"

definition newline :: char where
  "newline = CHR 0x0A"

text \<open>\<^verbatim>\<open>escapeCell(value)\<close>: \<^verbatim>\<open>value.replace(/\|/g, '\\|').replace(/\n/g, ' ')\<close>.\<close>

definition escapeCell :: "string option \<Rightarrow> string" where
  "escapeCell value =
     (case value of
        None \<Rightarrow> []
      | Some s \<Rightarrow>
          if s = [] then []
          else map (\<lambda>c. if c = newline then CHR '' '' else c)
                 (concat (map (\<lambda>c. if c = pipe then [backslash, pipe] else [c]) s)))"

text \<open>\<^verbatim>\<open>truncate(value, maxLength)\<close>.\<close>

definition truncate :: "string option \<Rightarrow> int \<Rightarrow> string" where
  "truncate value maxLength =
     (case value of
        None \<Rightarrow> []
      | Some s \<Rightarrow>
          if s = [] then []
          else if int (length s) \<le> maxLength then s
          else slice0 s (maxLength - 3) @ ''...'')"

text \<open>\<^verbatim>\<open>xs.join(sep)\<close> for an array of strings.\<close>

fun join :: "string \<Rightarrow> string list \<Rightarrow> string" where
  "join sep [] = []"
| "join sep [x] = x"
| "join sep (x # y # ys) = x @ sep @ join sep (y # ys)"

text \<open>\<^verbatim>\<open>value || '-'\<close> for a string that may be missing.\<close>

definition or_dash :: "string option \<Rightarrow> string" where
  "or_dash value = (case value of None \<Rightarrow> ''-'' | Some s \<Rightarrow> if s = [] then ''-'' else s)"

text \<open>The three rows every table is made of.\<close>

definition table_of :: "string list \<Rightarrow> string list list \<Rightarrow> string" where
  "table_of headers rows =
     (let headerRow = ''| '' @ join '' | '' headers @ '' |'';
          separatorRow = ''|'' @ join ''|'' (map (\<lambda>h. ''---'') headers) @ ''|'';
          dataRows = join [newline] (map (\<lambda>row. ''| '' @ join '' | '' row @ '' |'') rows)
      in headerRow @ [newline] @ separatorRow @ [newline] @ dataRows)"

definition issue_row :: "platform \<Rightarrow> IssueMinimal \<Rightarrow> string list" where
  "issue_row P issue =
     [escapeCell (Some (case issue_number issue of None \<Rightarrow> [] | Some n \<Rightarrow> Number_String P n)),
      escapeCell (Some (truncate (Some (issue_title issue)) MAX_TITLE_LENGTH)),
      escapeCell (Some (issue_state issue)),
      escapeCell (Some (or_dash (map_option (takeWhile (\<lambda>c. c \<noteq> CHR ''T'')) (issue_created_at issue)))),
      or_dash (issue_link issue)]"

definition formatIssuesAsTable :: "platform \<Rightarrow> IssueMinimal list \<Rightarrow> string" where
  "formatIssuesAsTable P issues =
     (if length issues = 0 then ''No issues found.''
      else table_of [''#'', ''Title'', ''State'', ''Created'', ''Link''] (map (issue_row P) issues))"

definition account_row :: "AccountMinimal \<Rightarrow> string list" where
  "account_row account =
     [escapeCell (Some (account_id account)),
      escapeCell (Some (truncate (Some (account_name account)) MAX_NAME_LENGTH)),
      escapeCell (Some (or_dash (account_primary_domain account))),
      escapeCell (Some (or_dash (Some (join '', ''
         (take 3 (case account_tags account of None \<Rightarrow> [] | Some ts \<Rightarrow> ts))))))]"

definition formatAccountsAsTable :: "AccountMinimal list \<Rightarrow> string" where
  "formatAccountsAsTable accounts =
     (if length accounts = 0 then ''No accounts found.''
      else table_of [''ID'', ''Name'', ''Domain'', ''Tags''] (map account_row accounts))"

definition contact_row :: "ContactMinimal \<Rightarrow> string list" where
  "contact_row contact =
     [escapeCell (Some (contact_id contact)),
      escapeCell (Some (truncate (Some (contact_name contact)) MAX_NAME_LENGTH)),
      escapeCell (Some (or_dash (contact_email contact))),
      escapeCell (Some (or_dash (contact_account_id contact)))]"

definition formatContactsAsTable :: "ContactMinimal list \<Rightarrow> string" where
  "formatContactsAsTable contacts =
     (if length contacts = 0 then ''No contacts found.''
      else table_of [''ID'', ''Name'', ''Email'', ''Account ID''] (map contact_row contacts))"

subsection \<open>Issue body\<close>

text \<open>What a tool call comes to: the dispatcher rejects arguments that fail the tool's
  schema before the handler runs; the handler throws or returns a text.\<close>

datatype tool_result = InvalidArguments | Thrown error | Text string

text \<open>The schema \<^verbatim>\<open>z.number().min(100).max(10000).optional()\<close> of \<^verbatim>\<open>max_length\<close>.\<close>

definition max_length_schema :: "int option \<Rightarrow> bool" where
  "max_length_schema max_length =
     (case max_length of None \<Rightarrow> True | Some n \<Rightarrow> 100 \<le> n \<and> n \<le> 10000)"

text \<open>The handler of \<^verbatim>\<open>pylon_get_issue_body\<close> from the point where \<^verbatim>\<open>raw\<close> is known.\<close>

definition issue_body :: "platform \<Rightarrow> json \<Rightarrow> int option \<Rightarrow> tool_result" where
  "issue_body P raw max_length =
     (let bodyHtml = get_prop raw ''body_html''
      in if \<not> truthy bodyHtml then Text ''No body content available.''
         else case bodyHtml of
           JStr h \<Rightarrow>
             (let maxLen = (case max_length of None \<Rightarrow> 2000 | Some n \<Rightarrow> n);
                  text = trim (replace_whitespace (replace_tags h));
                  truncated = (if int (length text) > maxLen
                               then slice0 text (maxLen - 3) @ ''...'' else text)
              in Text (''Issue #'' @ js_String P (get_prop raw ''number'') @ '' body (''
                       @ show_nat (length text) @ '' chars total, showing ''
                       @ show_nat (length truncated) @ ''):'' @ [newline, newline] @ truncated))
         | _ \<Rightarrow> Thrown (TypeError ''bodyHtml.replace is not a function''))"

text \<open>The tool: schema, \<^verbatim>\<open>client.getIssue(id)\<close>, \<^verbatim>\<open>result.data\<close>, handler.\<close>

definition pylon_get_issue_body ::
  "platform \<Rightarrow> string \<Rightarrow> int option \<Rightarrow> network \<Rightarrow> tool_result \<times> network" where
  "pylon_get_issue_body P ident max_length net =
     (if \<not> max_length_schema max_length then (InvalidArguments, net)
      else case getIssue P ident net of
        (Inl e, net') \<Rightarrow> (Thrown e, net')
      | (Inr result, net') \<Rightarrow>
          if result = JUndefined \<or> result = JNull
          then (Thrown (TypeError ''Cannot read properties of null or undefined (reading data)''), net')
          else let raw = get_prop result ''data''
               in if raw = JUndefined \<or> raw = JNull
                  then (Thrown (TypeError ''Cannot read properties of null or undefined (reading body_html)''), net')
                  else (issue_body P raw max_length, net'))"

section \<open>Properties of the specification\<close>

text \<open>The sanitization invariant of a cleaned filter, at every depth that
  \<^verbatim>\<open>cleanFilter\<close> reaches: the object is not empty, no field maps to the empty object,
  the operator map of a field of the whitelist has whitelisted operators only, and the
  object under a field that is not in the whitelist satisfies the invariant in turn.\<close>

definition operators_whitelisted :: "string \<Rightarrow> json \<Rightarrow> bool" where
  "operators_whitelisted k v =
     (case (map_of VALID_OPERATORS k, v) of
        (Some wl, JObj ops) \<Rightarrow> (\<forall>op \<in> set (own_keys ops). op \<in> set wl)
      | _ \<Rightarrow> True)"

fun sanitized_at :: "json \<Rightarrow> bool" where
  "sanitized_at (JObj r) =
     (r \<noteq> [] \<and>
      (\<forall>p \<in> set r. snd p \<noteq> JObj [] \<and> operators_whitelisted (fst p) (snd p)
           \<and> (map_of VALID_OPERATORS (fst p) = None \<longrightarrow> sanitized_at (snd p))))"
| "sanitized_at v = True"

definition sanitized :: "object option \<Rightarrow> bool" where
  "sanitized res = (case res of None \<Rightarrow> True | Some r \<Rightarrow> sanitized_at (JObj r))"

text \<open>A field that \<^verbatim>\<open>cleanFilter\<close> copies as it is, and an object made of such fields.\<close>

definition fixed_entry :: "string \<Rightarrow> json \<Rightarrow> bool" where
  "fixed_entry k v \<longleftrightarrow>
     k \<noteq> ''__proto__'' \<and>
     (\<forall>rest result. cleanFilter_loop ((k, v) # rest) result
                      = cleanFilter_loop rest (obj_set result k v))"

definition clean_result :: "object \<Rightarrow> bool" where
  "clean_result r \<longleftrightarrow> distinct (map fst r) \<and> (\<forall>(k, v) \<in> set r. fixed_entry k v)"

definition entry_ok :: "string \<Rightarrow> json \<Rightarrow> bool" where
  "entry_ok k v \<longleftrightarrow>
     v \<noteq> JObj [] \<and> operators_whitelisted k v
     \<and> (map_of VALID_OPERATORS k = None \<longrightarrow> sanitized_at v)"

text \<open>The structure of a rendered table: its lines, and the column delimiters of a
  line, which are the pipes that no backslash precedes.\<close>

fun lines_of :: "string \<Rightarrow> string list" where
  "lines_of [] = [[]]"
| "lines_of (c # cs) =
     (if c = newline then [] # lines_of cs
      else (case lines_of cs of [] \<Rightarrow> [[c]] | l # ls \<Rightarrow> (c # l) # ls))"

fun count_delimiters :: "bool \<Rightarrow> string \<Rightarrow> nat" where
  "count_delimiters escaped [] = 0"
| "count_delimiters escaped (c # cs) =
     (if c = pipe \<and> \<not> escaped then 1 else 0) + count_delimiters (c = backslash) cs"

definition delimiters :: "string \<Rightarrow> nat" where
  "delimiters line = count_delimiters False line"

text \<open>The time ranges of a filter that are validated: for every field whose value is an
  object that is not an array, with a truthy \<^verbatim>\<open>time_range\<close> whose \<^verbatim>\<open>start\<close> and
  \<^verbatim>\<open>end\<close> are both truthy, the field name with the two bounds.\<close>

definition time_range_pairs :: "object \<Rightarrow> (string \<times> json \<times> json) list" where
  "time_range_pairs f =
     concat (map (\<lambda>(k, v).
       case v of
         JObj fieldObj \<Rightarrow>
           (let timeRange = get_prop v ''time_range''
            in if truthy timeRange
                  \<and> truthy (get_prop timeRange ''start'') \<and> truthy (get_prop timeRange ''end'')
               then [(k, get_prop timeRange ''start'', get_prop timeRange ''end'')]
               else [])
       | _ \<Rightarrow> []) f)"

definition fails :: "platform \<Rightarrow> string \<times> json \<times> json \<Rightarrow> bool" where
  "fails P = (\<lambda>(k, s, e). isl (validateTimeRange P s e))"

text \<open>The two orders of identifier extraction. \<open>nested_id raw rel\<close> is the
  \<^verbatim>\<open>id\<close> of the nested object \<open>rel\<close>, \<^verbatim>\<open>undefined\<close> when there is none.
  \<open>flat_first\<close> prefers the flat field when it is a string; \<open>nested_first\<close> prefers the
  nested \<^verbatim>\<open>id\<close> when it is neither \<^verbatim>\<open>null\<close> nor \<^verbatim>\<open>undefined\<close>.\<close>

definition nested_id :: "object \<Rightarrow> string \<Rightarrow> json" where
  "nested_id raw rel = (case obj_get raw rel of JObj nested \<Rightarrow> obj_get nested ''id'' | _ \<Rightarrow> JUndefined)"

definition flat_first :: "object \<Rightarrow> string \<Rightarrow> string \<Rightarrow> json" where
  "flat_first raw flat rel =
     (case obj_get raw flat of JStr s \<Rightarrow> JStr s | _ \<Rightarrow> nested_id raw rel)"

definition nested_first :: "object \<Rightarrow> string \<Rightarrow> string \<Rightarrow> json" where
  "nested_first raw flat rel =
     (if nested_id raw rel = JUndefined \<or> nested_id raw rel = JNull then obj_get raw flat
      else nested_id raw rel)"

text \<open>What the stripped text is free of: tag markup, which is a \<^verbatim>\<open><\<close> with a \<^verbatim>\<open>>\<close>
  somewhere after it (a match of \<^verbatim>\<open><[^>]*>\<close>); runs of white space, which is white space
  other than a space or next to white space; white space at either end.\<close>

fun has_tag :: "string \<Rightarrow> bool" where
  "has_tag [] = False"
| "has_tag (c # cs) = ((c = CHR ''<'' \<and> CHR ''>'' \<in> set cs) \<or> has_tag cs)"

fun collapsed :: "string \<Rightarrow> bool" where
  "collapsed [] = True"
| "collapsed [c] = (is_space c \<longrightarrow> c = CHR '' '')"
| "collapsed (c # d # cs) = ((is_space c \<longrightarrow> c = CHR '' '' \<and> \<not> is_space d) \<and> collapsed (d # cs))"

definition trimmed :: "string \<Rightarrow> bool" where
  "trimmed s \<longleftrightarrow> s = [] \<or> (\<not> is_space (hd s) \<and> \<not> is_space (last s))"

text \<open>The angle brackets.\<close>

definition angle :: "char \<Rightarrow> bool" where
  "angle c \<longleftrightarrow> c = CHR ''<'' \<or> c = CHR ''>''"

text \<open>A cell that cannot change the shape of its table: it has no line feed, and
  followed by the space that ends every cell it adds no column delimiter, whatever
  precedes it.\<close>

definition safe_cell :: "string \<Rightarrow> bool" where
  "safe_cell c \<longleftrightarrow>
     newline \<notin> set c \<and>
     (\<forall>escaped rest. count_delimiters escaped (c @ CHR '' '' # rest) = count_delimiters False rest)"

text \<open>One data row of a table.\<close>

definition row_line :: "string list \<Rightarrow> string" where
  "row_line row = ''| '' @ join '' | '' row @ '' |''"

text \<open>A value in which no field, at any depth, is named like a member of
  \<^verbatim>\<open>Object.prototype\<close>.\<close>

fun inherited_free :: "json \<Rightarrow> bool" where
  "inherited_free (JObj obj) =
     (\<forall>p \<in> set obj. fst p \<notin> set Object_prototype_keys \<and> inherited_free (snd p))"
| "inherited_free v = True"

section \<open>A sample runtime\<close>

text \<open>A runtime for concrete runs: four dates with their time values, a rendering to
  one decimal digit, and a remote service that answers every request with an empty
  page.\<close>

definition sample_toFixed1 :: "rat \<Rightarrow> string" where
  "sample_toFixed1 q =
     (let t = \<lfloor>q * 10 + 1 / 2\<rfloor> in show_int (t div 10) @ ''.'' @ show_nat (nat (t mod 10)))"

definition sample_dates :: "(json \<times> int) list" where
  "sample_dates = [
     (JStr ''2024-01-01T00:00:00Z'', 1704067200000),
     (JStr ''2024-01-31T00:00:00Z'', 1706659200000),
     (JStr ''2024-02-01T00:00:00Z'', 1706745600000),
     (JStr ''2024-03-10T00:00:00Z'', 1710028800000)]"

definition sample_platform :: platform where
  "sample_platform = \<lparr>
     Date_getTime = map_of sample_dates,
     toFixed1 = sample_toFixed1,
     ToString_number = (\<lambda>q. ''1e+21''),
     ToString_object = (\<lambda>v. ''[object Object]''),
     fetch = (\<lambda>req. HttpOk (JObj [(''data'', JArr []),
                (''pagination'', JObj [(''cursor'', JNull), (''has_next_page'', JBool False)]),
                (''request_id'', JStr ''r1'')])) \<rparr>"

text \<open>A filter on the creation time with a range of 38 days.\<close>

definition wide_filter :: object where
  "wide_filter = [(''created_at'', JObj [(''time_range'',
      JObj [(''start'', JStr ''2024-02-01T00:00:00Z''), (''end'', JStr ''2024-03-10T00:00:00Z'')])])]"

text \<open>A filter with an unknown field, under which a known field carries an operator
  that is not in its whitelist, beside an empty object and a deeper unknown field.\<close>

definition nested_filter :: object where
  "nested_filter = [
     (''custom'', JObj [(''state'', JObj [(''equals'', JStr ''new''), (''bogus'', JNum 1)]),
                        (''empty'', JObj []),
                        (''deeper'', JObj [(''title'', JObj [(''gte'', JStr ''x'')])])]),
     (''title'', JObj [(''string_contains'', JStr ''bug'')]),
     (''state'', JObj [(''gte'', JStr ''new'')])]"

text \<open>A raw issue with both forms of the account relation and an HTML body.\<close>

definition sample_issue :: object where
  "sample_issue = [
     (''id'', JStr ''iss_1''),
     (''number'', JNum 42),
     (''title'', JStr ''Login fails''),
     (''state'', JStr ''new''),
     (''account_id'', JStr ''acc_flat''),
     (''account'', JObj [(''id'', JStr ''acc_nested'')]),
     (''assignee'', JObj [(''id'', JStr ''user_7'')]),
     (''body_html'', JStr ''<p>Hi <b>there</b></p>'')]"

text \<open>An issue whose body has 150 characters of text, an issue without a body, and a
  remote service that answers a request for an issue with the issue of that path.\<close>

definition long_issue :: object where
  "long_issue = [
     (''id'', JStr ''iss_2''),
     (''number'', JNum 43),
     (''body_html'', JStr (''<p>'' @ replicate 150 (CHR ''a'') @ ''</p>''))]"

definition bodiless_issue :: object where
  "bodiless_issue = [(''id'', JStr ''iss_3''), (''number'', JNum 44), (''body_html'', JNull)]"

definition body_service :: platform where
  "body_service = sample_platform \<lparr> fetch := (\<lambda>req. HttpOk (JObj [(''data'', JObj
      (if http_path req = ''/issues/iss_2'' then long_issue
       else if http_path req = ''/issues/iss_3'' then bodiless_issue
       else sample_issue))])) \<rparr>"

text \<open>Minimal views for the tables: one with a pipe in the title, one with a pipe in the
  link, one with a line feed in the link.\<close>

definition plain_issue :: IssueMinimal where
  "plain_issue = \<lparr>
     issue_id = ''iss_1'', issue_number = Some 42, issue_title = ''Login | signup fails'',
     issue_state = ''new'', issue_link = Some ''https://app.usepylon.com/issues?id=iss_1'',
     issue_created_at = Some ''2024-02-01T10:00:00Z'', issue_assignee_id = None,
     issue_account_id = None, issue_tags = None \<rparr>"

definition piped_link_issue :: IssueMinimal where
  "piped_link_issue = plain_issue \<lparr> issue_link := Some ''https://app.usepylon.com/issues?a=1|b=2'' \<rparr>"

definition broken_link_issue :: IssueMinimal where
  "broken_link_issue = plain_issue \<lparr> issue_link := Some (''https://app.usepylon.com/'' @ [newline] @ ''issues'') \<rparr>"

section \<open>The cleaned filter\<close>

subsection \<open>Assignments and the operator loop\<close>

lemma set_obj_set: "set (obj_set obj k v) \<subseteq> insert (k, v) (set obj)"
  by (induction obj) (auto split: if_splits)

lemma keys_obj_set:
  "map fst (obj_set obj k v) = (if k \<in> fst ` set obj then map fst obj else map fst obj @ [k])"
  by (induction obj) (auto simp: rev_image_eqI)

lemma distinct_obj_set: "distinct (map fst obj) \<Longrightarrow> distinct (map fst (obj_set obj k v))"
  by (simp add: keys_obj_set)

lemma obj_set_append: "k \<notin> fst ` set obj \<Longrightarrow> obj_set obj k v = obj @ [(k, v)]"
  by (induction obj) auto

lemma obj_set_not_Nil: "obj_set obj k v \<noteq> []"
  by (cases obj) (auto split: if_splits)

lemma set_assign: "set (assign obj k v) \<subseteq> insert (k, v) (set obj)"
  using set_obj_set by (auto simp: assign_def)

lemma proto_not_in_table: "VALID_OPERATORS_get ''__proto__'' = Inherited"
  by (simp add: VALID_OPERATORS_get_def VALID_OPERATORS_def Object_prototype_keys_def)

lemma cleanOperators_Inherited:
  "cleanOperators Inherited ops acc = (if ops = [] then Inr acc else Inl (TypeError ''validOperators.has is not a function''))"
  by (cases ops) auto

lemma cleanOperators_NoEntry:
  "cleanOperators NoEntry ops acc = (if ops = [] then Inr acc else Inl (TypeError ''validOperators.has is not a function''))"
  by (cases ops) auto

lemma cleanOperators_entries:
  "cleanOperators (OperatorSet wl) ops acc = Inr r \<Longrightarrow>
   (k, v) \<in> set r \<Longrightarrow> (k, v) \<in> set acc \<or> (k \<in> set wl \<and> k \<noteq> ''__proto__'' \<and> v \<noteq> JUndefined \<and> v \<noteq> JNull)"
proof (induction ops arbitrary: acc)
  case Nil
  then show ?case by simp
next
  case (Cons a ops)
  obtain op opValue where a: "a = (op, opValue)" by (cases a)
  show ?case
  proof (cases "op \<in> set wl \<and> opValue \<noteq> JUndefined \<and> opValue \<noteq> JNull")
    case True
    with Cons.prems a have "cleanOperators (OperatorSet wl) ops (assign acc op opValue) = Inr r"
      by simp
    from Cons.IH[OF this Cons.prems(2)] True show ?thesis
      using set_obj_set[of acc op opValue] by (auto simp: assign_def split: if_splits)
  next
    case False
    with Cons.prems a have "cleanOperators (OperatorSet wl) ops acc = Inr r"
      by auto
    from Cons.IH[OF this Cons.prems(2)] show ?thesis .
  qed
qed

lemma cleanOperators_distinct:
  "cleanOperators (OperatorSet wl) ops acc = Inr r \<Longrightarrow> distinct (map fst acc) \<Longrightarrow> distinct (map fst r)"
proof (induction ops arbitrary: acc)
  case Nil
  then show ?case by simp
next
  case (Cons a ops)
  obtain op opValue where a: "a = (op, opValue)" by (cases a)
  have d: "distinct (map fst (assign acc op opValue))"
    using Cons.prems(2) by (simp add: assign_def distinct_obj_set)
  from Cons.prems(1) a show ?case
    using Cons.IH[OF _ d] Cons.IH[OF _ Cons.prems(2)] by (auto split: if_splits)
qed

lemma cleanOperators_fixed:
  "\<forall>(k, v) \<in> set ops. k \<in> set wl \<and> k \<noteq> ''__proto__'' \<and> v \<noteq> JUndefined \<and> v \<noteq> JNull \<Longrightarrow>
   distinct (map fst (acc @ ops)) \<Longrightarrow>
   cleanOperators (OperatorSet wl) ops acc = Inr (acc @ ops)"
proof (induction ops arbitrary: acc)
  case Nil
  then show ?case by simp
next
  case (Cons a ops)
  obtain op opValue where a: "a = (op, opValue)" by (cases a)
  from Cons.prems a have ok: "op \<in> set wl" "op \<noteq> ''__proto__''" "opValue \<noteq> JUndefined" "opValue \<noteq> JNull"
    by auto
  from Cons.prems(2) a have notin: "op \<notin> fst ` set acc" by auto
  have as: "assign acc op opValue = acc @ [(op, opValue)]"
    using ok notin by (simp add: assign_def obj_set_append)
  have "cleanOperators (OperatorSet wl) ops (acc @ [(op, opValue)]) = Inr ((acc @ [(op, opValue)]) @ ops)"
    using Cons.prems a by (intro Cons.IH) auto
  then show ?case using ok a as by simp
qed

lemma cleanOperators_idem:
  assumes "cleanOperators (OperatorSet wl) ops [] = Inr r"
  shows "cleanOperators (OperatorSet wl) r [] = Inr r"
proof -
  have "distinct (map fst r)" using cleanOperators_distinct[OF assms] by simp
  moreover have "\<forall>(k, v) \<in> set r. k \<in> set wl \<and> k \<noteq> ''__proto__'' \<and> v \<noteq> JUndefined \<and> v \<noteq> JNull"
    using cleanOperators_entries[OF assms] by auto
  ultimately show ?thesis using cleanOperators_fixed[of r wl "[]"] by simp
qed

lemma loop_fixed:
  "\<forall>(k, v) \<in> set xs. fixed_entry k v \<Longrightarrow> distinct (map fst (acc @ xs)) \<Longrightarrow>
   cleanFilter_loop xs acc = Inr (acc @ xs)"
proof (induction xs arbitrary: acc)
  case Nil
  then show ?case by simp
next
  case (Cons a xs)
  obtain k v where a: "a = (k, v)" by (cases a)
  from Cons.prems a have fx: "fixed_entry k v" by auto
  from Cons.prems(2) a have notin: "k \<notin> fst ` set acc" by auto
  have "cleanFilter_loop (a # xs) acc = cleanFilter_loop xs (obj_set acc k v)"
    using fx a unfolding fixed_entry_def by blast
  also have "\<dots> = cleanFilter_loop xs (acc @ [(k, v)])"
    using notin by (simp add: obj_set_append)
  also have "\<dots> = Inr ((acc @ [(k, v)]) @ xs)"
    using Cons.prems a by (intro Cons.IH) auto
  finally show ?case using a by simp
qed

lemma cleanOperators_total: "\<exists>r. cleanOperators (OperatorSet wl) ops acc = Inr r"
  by (induction ops arbitrary: acc) auto

lemma fixed_entry_scalar:
  assumes "k \<noteq> ''__proto__''" "v \<noteq> JUndefined" "v \<noteq> JNull" "\<forall>obj. v \<noteq> JObj obj"
  shows "fixed_entry k v"
  using assms unfolding fixed_entry_def by (cases v) (auto simp: assign_def)

lemma fixed_entry_known:
  assumes g: "VALID_OPERATORS_get k = OperatorSet wl"
    and c: "cleanOperators (OperatorSet wl) ops [] = Inr r" and ne: "r \<noteq> []"
  shows "fixed_entry k (JObj r)"
proof -
  have k: "k \<noteq> ''__proto__''" using g proto_not_in_table by auto
  have "cleanOperators (OperatorSet wl) r [] = Inr r" by (rule cleanOperators_idem[OF c])
  then show ?thesis using g k ne unfolding fixed_entry_def by (simp add: assign_def own_keys_def)
qed

lemma fixed_entry_unknown:
  assumes g: "VALID_OPERATORS_get k = NoEntry"
    and c: "cleanFilter r = Inr (Some r)" and ne: "r \<noteq> []"
  shows "fixed_entry k (JObj r)"
proof -
  have k: "k \<noteq> ''__proto__''" using g proto_not_in_table by auto
  show ?thesis using g k ne c unfolding fixed_entry_def by (simp add: assign_def own_keys_def)
qed

subsection \<open>One step of the loop\<close>

lemma loop_null:
  "v = JUndefined \<or> v = JNull \<Longrightarrow> cleanFilter_loop ((k, v) # rest) acc = cleanFilter_loop rest acc"
  by auto

lemma loop_scalar:
  "v \<noteq> JUndefined \<Longrightarrow> v \<noteq> JNull \<Longrightarrow> \<forall>obj. v \<noteq> JObj obj \<Longrightarrow>
   cleanFilter_loop ((k, v) # rest) acc = cleanFilter_loop rest (assign acc k v)"
  by (cases v) auto

lemma loop_known:
  "VALID_OPERATORS_get k = OperatorSet wl \<Longrightarrow>
   cleanOperators (OperatorSet wl) ops [] = Inr c \<Longrightarrow>
   cleanFilter_loop ((k, JObj ops) # rest) acc =
     (if c \<noteq> [] then cleanFilter_loop rest (assign acc k (JObj c)) else cleanFilter_loop rest acc)"
  by (simp add: own_keys_def)

lemma loop_inherited:
  "VALID_OPERATORS_get k = Inherited \<Longrightarrow>
   cleanFilter_loop ((k, JObj ops) # rest) acc =
     (if ops = [] then cleanFilter_loop rest acc
      else Inl (TypeError ''validOperators.has is not a function''))"
  by (simp add: own_keys_def cleanOperators_Inherited)

lemma loop_unknown:
  "VALID_OPERATORS_get k = NoEntry \<Longrightarrow>
   cleanFilter_loop ((k, JObj ops) # rest) acc =
     (case cleanFilter_loop ops [] of
        Inl e \<Rightarrow> Inl e
      | Inr c \<Rightarrow> if c \<noteq> [] then cleanFilter_loop rest (assign acc k (JObj c))
                 else cleanFilter_loop rest acc)"
  by (simp add: own_keys_def split: sum.splits)

lemma cleanFilter_eq:
  "cleanFilter obj = (case cleanFilter_loop obj [] of Inl e \<Rightarrow> Inl e
                      | Inr r \<Rightarrow> Inr (if r \<noteq> [] then Some r else None))"
  by (simp add: own_keys_def split: sum.splits)

declare cleanFilter.simps [simp del] cleanFilter_loop.simps(2) [simp del]

lemma clean_result_fixed: "clean_result r \<Longrightarrow> cleanFilter_loop r [] = Inr r"
  using loop_fixed[of r "[]"] by (simp add: clean_result_def)

lemma clean_result_assign:
  assumes "clean_result acc" "k \<noteq> ''__proto__'' \<Longrightarrow> fixed_entry k v"
  shows "clean_result (assign acc k v)"
  using assms set_obj_set[of acc k v]
  by (auto simp: clean_result_def assign_def distinct_obj_set)

lemma cleanFilter_loop_clean_result:
  "clean_result acc \<Longrightarrow> cleanFilter_loop xs acc = Inr r \<Longrightarrow> clean_result r"
proof (induction "size (JObj xs)" arbitrary: xs acc r rule: less_induct)
  case less
  show ?case
  proof (cases xs)
    case Nil
    with less.prems show ?thesis by simp
  next
    case (Cons a rest)
    obtain k v where a: "a = (k, v)" by (cases a)
    have IHrest: "\<And>acc' r'. clean_result acc' \<Longrightarrow> cleanFilter_loop rest acc' = Inr r' \<Longrightarrow> clean_result r'"
      using less.hyps[of rest] Cons by simp
    note run = less.prems(2)[unfolded Cons a]
    consider (null) "v = JUndefined \<or> v = JNull"
      | (scalar) "v \<noteq> JUndefined" "v \<noteq> JNull" "\<forall>obj. v \<noteq> JObj obj"
      | (obj) ops where "v = JObj ops"
      by (cases v) auto
    then show ?thesis
    proof cases
      case null
      then show ?thesis using run IHrest less.prems(1) by (simp add: loop_null)
    next
      case scalar
      have "clean_result (assign acc k v)"
        using less.prems(1) scalar by (intro clean_result_assign fixed_entry_scalar) auto
      then show ?thesis using run IHrest scalar by (simp add: loop_scalar)
    next
      case obj
      show ?thesis
      proof (cases "VALID_OPERATORS_get k")
        case NoEntry
        show ?thesis
        proof (cases "cleanFilter_loop ops []")
          case (Inl e)
          with run obj NoEntry show ?thesis by (simp add: loop_unknown)
        next
          case (Inr c)
          have cr0: "clean_result []" by (simp add: clean_result_def)
          have cr: "clean_result c"
            using less.hyps[of ops "[]" c] cr0 Inr Cons a obj by simp
          show ?thesis
          proof (cases "c = []")
            case True
            then show ?thesis using run obj NoEntry Inr IHrest less.prems(1)
              by (simp add: loop_unknown)
          next
            case False
            have "cleanFilter c = Inr (Some c)"
              using clean_result_fixed[OF cr] False by (simp add: cleanFilter_eq)
            then have "fixed_entry k (JObj c)"
              using NoEntry False by (intro fixed_entry_unknown)
            then have "clean_result (assign acc k (JObj c))"
              using less.prems(1) by (intro clean_result_assign)
            then show ?thesis using run obj NoEntry Inr False IHrest
              by (simp add: loop_unknown)
          qed
        qed
      next
        case (OperatorSet wl)
        obtain c where c: "cleanOperators (OperatorSet wl) ops [] = Inr c"
          using cleanOperators_total by blast
        show ?thesis
        proof (cases "c = []")
          case True
          then show ?thesis using run obj IHrest less.prems(1) loop_known[OF OperatorSet c]
            by simp
        next
          case False
          have "fixed_entry k (JObj c)"
            using OperatorSet c False by (rule fixed_entry_known)
          then have "clean_result (assign acc k (JObj c))"
            using less.prems(1) by (intro clean_result_assign)
          then show ?thesis using run obj IHrest False loop_known[OF OperatorSet c]
            by simp
        qed
      next
        case Inherited
        then show ?thesis using run obj IHrest less.prems(1)
          by (simp add: loop_inherited split: if_splits)
      qed
    qed
  qed
qed

text \<open>
  Claim C7. \<^verbatim>\<open>cleanFilter\<close> is idempotent: when \<^verbatim>\<open>cleanFilter(f)\<close> is an object (not
  \<^verbatim>\<open>undefined\<close>), cleaning that object again returns it unchanged.
\<close>

theorem cleanFilter_idempotent:
  assumes "cleanFilter f = Inr (Some r)"
  shows "cleanFilter r = Inr (Some r)"
proof -
  from assms have run: "cleanFilter_loop f [] = Inr r" and ne: "r \<noteq> []"
    by (auto simp: cleanFilter_eq split: sum.splits if_splits)
  have "clean_result []" by (simp add: clean_result_def)
  then have "clean_result r" using run by (rule cleanFilter_loop_clean_result)
  then show ?thesis using ne by (simp add: cleanFilter_eq clean_result_fixed)
qed

lemma sanitized_at_entries:
  "sanitized_at (JObj r) \<longleftrightarrow> r \<noteq> [] \<and> (\<forall>(k, v) \<in> set r. entry_ok k v)"
  by (auto simp: entry_ok_def)

declare sanitized_at.simps(1) [simp del]

lemma entry_ok_scalar: "\<forall>obj. v \<noteq> JObj obj \<Longrightarrow> entry_ok k v"
  by (cases v) (auto simp: entry_ok_def operators_whitelisted_def split: option.splits)

lemma entry_ok_unknown:
  "VALID_OPERATORS_get k = NoEntry \<Longrightarrow> c \<noteq> [] \<Longrightarrow> \<forall>(k, v) \<in> set c. entry_ok k v \<Longrightarrow>
   entry_ok k (JObj c)"
  by (auto simp: entry_ok_def sanitized_at_entries operators_whitelisted_def
        VALID_OPERATORS_get_def split: option.splits)

lemma entry_ok_known:
  assumes "VALID_OPERATORS_get k = OperatorSet wl"
    and "cleanOperators (OperatorSet wl) ops [] = Inr c" and "c \<noteq> []"
  shows "entry_ok k (JObj c)"
proof -
  have "map_of VALID_OPERATORS k = Some wl"
    using assms(1) by (auto simp: VALID_OPERATORS_get_def split: option.splits if_splits)
  moreover have "\<forall>op \<in> set (own_keys c). op \<in> set wl"
    using cleanOperators_entries[OF assms(2)] by (auto simp: own_keys_def)
  ultimately show ?thesis using assms(3) by (simp add: entry_ok_def operators_whitelisted_def)
qed

lemma entry_ok_assign:
  "\<forall>(k, v) \<in> set acc. entry_ok k v \<Longrightarrow> entry_ok k' v' \<Longrightarrow>
   \<forall>(k, v) \<in> set (assign acc k' v'). entry_ok k v"
  using set_assign[of acc k' v'] by auto

lemma cleanFilter_loop_entry_ok:
  "\<forall>(k, v) \<in> set acc. entry_ok k v \<Longrightarrow> cleanFilter_loop xs acc = Inr r \<Longrightarrow>
   \<forall>(k, v) \<in> set r. entry_ok k v"
proof (induction "size (JObj xs)" arbitrary: xs acc r rule: less_induct)
  case less
  show ?case
  proof (cases xs)
    case Nil
    with less.prems show ?thesis by simp
  next
    case (Cons a rest)
    obtain k v where a: "a = (k, v)" by (cases a)
    have IHrest: "\<And>acc' r'. \<forall>(k, v) \<in> set acc'. entry_ok k v \<Longrightarrow>
        cleanFilter_loop rest acc' = Inr r' \<Longrightarrow> \<forall>(k, v) \<in> set r'. entry_ok k v"
      using less.hyps[of rest] Cons by simp
    note run = less.prems(2)[unfolded Cons a]
    consider (null) "v = JUndefined \<or> v = JNull"
      | (scalar) "v \<noteq> JUndefined" "v \<noteq> JNull" "\<forall>obj. v \<noteq> JObj obj"
      | (obj) ops where "v = JObj ops"
      by (cases v) auto
    then show ?thesis
    proof cases
      case null
      then show ?thesis using run IHrest[OF less.prems(1)] by (simp add: loop_null)
    next
      case scalar
      have "\<forall>(k, v) \<in> set (assign acc k v). entry_ok k v"
        using less.prems(1) scalar(3) by (intro entry_ok_assign entry_ok_scalar)
      then show ?thesis using run IHrest scalar by (simp add: loop_scalar)
    next
      case obj
      show ?thesis
      proof (cases "VALID_OPERATORS_get k")
        case NoEntry
        show ?thesis
        proof (cases "cleanFilter_loop ops []")
          case (Inl e)
          with run obj NoEntry show ?thesis by (simp add: loop_unknown)
        next
          case (Inr c)
          have deep: "\<forall>(k, v) \<in> set c. entry_ok k v"
            using less.hyps[of ops "[]" c] Inr Cons a obj by simp
          show ?thesis
          proof (cases "c = []")
            case True
            then show ?thesis using run obj NoEntry Inr IHrest[OF less.prems(1)]
              by (simp add: loop_unknown)
          next
            case False
            have "\<forall>(k, v) \<in> set (assign acc k (JObj c)). entry_ok k v"
              using less.prems(1) NoEntry False deep
              by (intro entry_ok_assign entry_ok_unknown)
            then show ?thesis using run obj NoEntry Inr False IHrest
              by (simp add: loop_unknown)
          qed
        qed
      next
        case (OperatorSet wl)
        obtain c where c: "cleanOperators (OperatorSet wl) ops [] = Inr c"
          using cleanOperators_total by blast
        show ?thesis
        proof (cases "c = []")
          case True
          then show ?thesis
            using run obj IHrest[OF less.prems(1)] loop_known[OF OperatorSet c] by simp
        next
          case False
          have "\<forall>(k, v) \<in> set (assign acc k (JObj c)). entry_ok k v"
            using less.prems(1) OperatorSet c False by (intro entry_ok_assign entry_ok_known)
          then show ?thesis using run obj IHrest False loop_known[OF OperatorSet c]
            by simp
        qed
      next
        case Inherited
        then show ?thesis using run obj IHrest[OF less.prems(1)]
          by (simp add: loop_inherited split: if_splits)
      qed
    qed
  qed
qed

text \<open>The only error of \<^verbatim>\<open>cleanFilter\<close> is the call of the missing method \<^verbatim>\<open>has\<close>,
  and there is none on a filter without inherited names.\<close>

lemma get_not_inherited:
  "k \<notin> set Object_prototype_keys \<Longrightarrow> VALID_OPERATORS_get k \<noteq> Inherited"
  by (auto simp: VALID_OPERATORS_get_def split: option.splits)

lemma cleanFilter_loop_error:
  "cleanFilter_loop xs acc = Inl e \<Longrightarrow> e = TypeError ''validOperators.has is not a function''"
proof (induction "size (JObj xs)" arbitrary: xs acc e rule: less_induct)
  case less
  show ?case
  proof (cases xs)
    case Nil
    with less.prems show ?thesis by simp
  next
    case (Cons a rest)
    obtain k v where a: "a = (k, v)" by (cases a)
    have IHrest: "\<And>acc'. cleanFilter_loop rest acc' = Inl e \<Longrightarrow> ?thesis"
      using less.hyps[of rest _ e] Cons by simp
    note run = less.prems[unfolded Cons a]
    consider (null) "v = JUndefined \<or> v = JNull"
      | (scalar) "v \<noteq> JUndefined" "v \<noteq> JNull" "\<forall>obj. v \<noteq> JObj obj"
      | (obj) ops where "v = JObj ops"
      by (cases v) auto
    then show ?thesis
    proof cases
      case null
      then show ?thesis using run IHrest by (simp add: loop_null)
    next
      case scalar
      then show ?thesis using run IHrest by (simp add: loop_scalar)
    next
      case obj
      show ?thesis
      proof (cases "VALID_OPERATORS_get k")
        case NoEntry
        show ?thesis
        proof (cases "cleanFilter_loop ops []")
          case (Inl e')
          then have "e' = TypeError ''validOperators.has is not a function''"
            using less.hyps[of ops "[]" e'] Cons a obj by simp
          with run obj NoEntry Inl show ?thesis by (simp add: loop_unknown)
        next
          case (Inr c)
          with run obj NoEntry IHrest show ?thesis
            by (simp add: loop_unknown split: if_splits)
        qed
      next
        case (OperatorSet wl)
        obtain c where c: "cleanOperators (OperatorSet wl) ops [] = Inr c"
          using cleanOperators_total by blast
        show ?thesis using run obj IHrest loop_known[OF OperatorSet c]
          by (simp split: if_splits)
      next
        case Inherited
        then show ?thesis using run obj IHrest
          by (simp add: loop_inherited split: if_splits)
      qed
    qed
  qed
qed

lemma cleanFilter_loop_returns:
  "inherited_free (JObj xs) \<Longrightarrow> \<exists>r. cleanFilter_loop xs acc = Inr r"
proof (induction "size (JObj xs)" arbitrary: xs acc rule: less_induct)
  case less
  show ?case
  proof (cases xs)
    case Nil
    then show ?thesis by simp
  next
    case (Cons a rest)
    obtain k v where a: "a = (k, v)" by (cases a)
    have free: "k \<notin> set Object_prototype_keys" "inherited_free v" "inherited_free (JObj rest)"
      using less.prems Cons a by auto
    have IHrest: "\<And>acc'. \<exists>r. cleanFilter_loop rest acc' = Inr r"
      using less.hyps[of rest] Cons free(3) by simp
    consider (null) "v = JUndefined \<or> v = JNull"
      | (scalar) "v \<noteq> JUndefined" "v \<noteq> JNull" "\<forall>obj. v \<noteq> JObj obj"
      | (obj) ops where "v = JObj ops"
      by (cases v) auto
    then show ?thesis
    proof cases
      case null
      then show ?thesis using IHrest Cons a by (simp add: loop_null)
    next
      case scalar
      then show ?thesis using IHrest Cons a by (simp add: loop_scalar)
    next
      case obj
      show ?thesis
      proof (cases "VALID_OPERATORS_get k")
        case NoEntry
        obtain c where c: "cleanFilter_loop ops [] = Inr c"
          using less.hyps[of ops "[]"] Cons a obj free(2) by auto
        show ?thesis using IHrest Cons a obj NoEntry c by (simp add: loop_unknown)
      next
        case (OperatorSet wl)
        obtain c where c: "cleanOperators (OperatorSet wl) ops [] = Inr c"
          using cleanOperators_total by blast
        show ?thesis using IHrest Cons a obj loop_known[OF OperatorSet c] by simp
      next
        case Inherited
        with free(1) show ?thesis using get_not_inherited by blast
      qed
    qed
  qed
qed

lemma cleanFilter_returns:
  "inherited_free (JObj f) \<Longrightarrow> \<exists>res. cleanFilter f = Inr res"
  using cleanFilter_loop_returns[of f "[]"] by (auto simp: cleanFilter_eq)

text \<open>
  Claim C1. Whatever \<^verbatim>\<open>cleanFilter(f)\<close> returns satisfies the sanitization invariant,
  at the top and in every object under an unknown field:
  every operator key of a surviving field of the whitelist is in that field's whitelist,
  no surviving field maps to the empty object, and when every field is eliminated the
  result is \<^verbatim>\<open>undefined\<close>, never the empty object. The call returns unless it meets an
  object under a field named like a member of \<^verbatim>\<open>Object.prototype\<close>.
\<close>

theorem cleanFilter_sanitized:
  "case cleanFilter f of
     Inl e \<Rightarrow> e = TypeError ''validOperators.has is not a function''
   | Inr res \<Rightarrow> sanitized res"
proof (cases "cleanFilter f")
  case (Inl e)
  then have "cleanFilter_loop f [] = Inl e"
    by (auto simp: cleanFilter_eq split: sum.splits)
  with Inl show ?thesis using cleanFilter_loop_error by simp
next
  case (Inr res)
  show ?thesis
  proof (cases res)
    case None
    with Inr show ?thesis by (simp add: sanitized_def)
  next
    case (Some r)
    with Inr have run: "cleanFilter_loop f [] = Inr r" and ne: "r \<noteq> []"
      by (auto simp: cleanFilter_eq split: sum.splits if_splits)
    have "\<forall>(k, v) \<in> set r. entry_ok k v"
      using cleanFilter_loop_entry_ok[OF _ run] by simp
    then show ?thesis using ne Some Inr by (simp add: sanitized_def sanitized_at_entries)
  qed
qed

theorem cleanFilter_sanitized_witness:
  "cleanFilter nested_filter
     = Inr (Some [(''custom'', JObj [(''state'', JObj [(''equals'', JStr ''new'')])]),
                  (''title'', JObj [(''string_contains'', JStr ''bug'')])])
   \<and> sanitized (Some [(''custom'', JObj [(''state'', JObj [(''equals'', JStr ''new'')])]),
                       (''title'', JObj [(''string_contains'', JStr ''bug'')])])"
proof -
  have h: "cleanFilter nested_filter
     = Inr (Some [(''custom'', JObj [(''state'', JObj [(''equals'', JStr ''new'')])]),
                  (''title'', JObj [(''string_contains'', JStr ''bug'')])])"
    by code_simp
  show ?thesis using h cleanFilter_sanitized[of nested_filter] by simp
qed

text \<open>The invariant is about every depth: an object that keeps an operator outside the
  whitelist, or an empty object, under an unknown field does not satisfy it, and
  \<^verbatim>\<open>cleanFilter\<close> returns \<^verbatim>\<open>undefined\<close> for it.\<close>

lemma sanitized_is_deep:
  "\<not> sanitized (Some [(''custom'', JObj [(''state'', JObj [(''bogus'', JNum 1)]),
                                            (''empty'', JObj [])])])
   \<and> cleanFilter [(''custom'', JObj [(''state'', JObj [(''bogus'', JNum 1)]),
                                     (''empty'', JObj [])])] = Inr None"
  by code_simp

lemma cleanFilter_all_eliminated:
  "cleanFilter [(''state'', JObj [(''bogus_op'', JStr ''x'')])] = Inr None"
  by code_simp

lemma cleanFilter_throws:
  "cleanFilter [(''constructor'', JObj [(''equals'', JStr ''x'')])]
     = Inl (TypeError ''validOperators.has is not a function'')"
  by code_simp
theorem cleanFilter_idempotent_witness:
  "cleanFilter [(''custom'', JObj [(''state'', JObj [(''equals'', JStr ''new''), (''gte'', JNum 1)])]),
                (''created_at'', JObj [(''gte'', JStr ''2024-01-01'')]),
                (''limit'', JNum 5)]
     = Inr (Some [(''custom'', JObj [(''state'', JObj [(''equals'', JStr ''new'')])]),
                  (''limit'', JNum 5)])
   \<and> cleanFilter [(''custom'', JObj [(''state'', JObj [(''equals'', JStr ''new'')])]),
                  (''limit'', JNum 5)]
     = Inr (Some [(''custom'', JObj [(''state'', JObj [(''equals'', JStr ''new'')])]),
                  (''limit'', JNum 5)])"
proof -
  have h: "cleanFilter [(''custom'', JObj [(''state'', JObj [(''equals'', JStr ''new''), (''gte'', JNum 1)])]),
                (''created_at'', JObj [(''gte'', JStr ''2024-01-01'')]),
                (''limit'', JNum 5)]
     = Inr (Some [(''custom'', JObj [(''state'', JObj [(''equals'', JStr ''new'')])]),
                  (''limit'', JNum 5)])"
    by code_simp
  show ?thesis using h cleanFilter_idempotent[OF h] by simp
qed

section \<open>Time ranges\<close>

lemma day_ms: "MS_PER_DAY = 86400000" "MAX_TIME_RANGE_DAYS = 30"
  by (simp_all add: MS_PER_DAY_def MAX_TIME_RANGE_DAYS_def)

lemma too_large_iff:
  "(rat_of_int d / rat_of_int MS_PER_DAY > rat_of_int MAX_TIME_RANGE_DAYS)
     \<longleftrightarrow> d > MAX_TIME_RANGE_DAYS * MS_PER_DAY"
proof -
  have "(rat_of_int d / 86400000 > 30) \<longleftrightarrow> rat_of_int 2592000000 < rat_of_int d"
    by simp
  also have "\<dots> \<longleftrightarrow> 2592000000 < d"
    by (simp only: of_int_less_iff)
  finally show ?thesis by (simp add: day_ms)
qed


lemma thirty: "show_int MAX_TIME_RANGE_DAYS = ''30''"
  by (simp add: MAX_TIME_RANGE_DAYS_def show_int_def digit_char_def show_nat.simps)

lemma validateTimeRange_parsed:
  "Date_getTime P startTime = Some a \<Longrightarrow> Date_getTime P endTime = Some b \<Longrightarrow>
   validateTimeRange P startTime endTime =
     (if a \<ge> b then Inl (Error ''start_time must be before end_time'')
      else if b - a > MAX_TIME_RANGE_DAYS * MS_PER_DAY
      then Inl (Error (''Time range cannot exceed 30 days. Requested: ''
                     @ toFixed1 P (rat_of_int (b - a) / rat_of_int MS_PER_DAY)
                     @ '' days. Try a shorter range like 28 days.''))
      else Inr ())"
  unfolding validateTimeRange_def Let_def too_large_iff thirty by simp

text \<open>
  Claim C4. \<^verbatim>\<open>validateTimeRange(start, end)\<close> fails with the invalid-timestamp
  error when either input does not parse; when both parse it returns for
  \<open>start < end\<close> at most 30 days apart, fails with the invalid-range error for
  \<open>start \<ge> end\<close>, and fails for more than 30 days with the error whose message
  reports the requested span in days.
\<close>

theorem validateTimeRange_cases:
  "(Date_getTime P startTime = None \<longrightarrow>
      validateTimeRange P startTime endTime
        = Inl (Error (''Invalid start_time format: '' @ js_String P startTime
                      @ ''. Use RFC3339 format (e.g., 2024-01-01T00:00:00Z)'')))
   \<and> (\<forall>a. Date_getTime P startTime = Some a \<and> Date_getTime P endTime = None \<longrightarrow>
      validateTimeRange P startTime endTime
        = Inl (Error (''Invalid end_time format: '' @ js_String P endTime
                      @ ''. Use RFC3339 format (e.g., 2024-01-31T00:00:00Z)'')))
   \<and> (\<forall>a b. Date_getTime P startTime = Some a \<and> Date_getTime P endTime = Some b \<longrightarrow>
        (a < b \<and> b - a \<le> MAX_TIME_RANGE_DAYS * MS_PER_DAY \<longrightarrow>
           validateTimeRange P startTime endTime = Inr ())
      \<and> (a \<ge> b \<longrightarrow>
           validateTimeRange P startTime endTime = Inl (Error ''start_time must be before end_time''))
      \<and> (b - a > MAX_TIME_RANGE_DAYS * MS_PER_DAY \<longrightarrow>
           validateTimeRange P startTime endTime
             = Inl (Error (''Time range cannot exceed 30 days. Requested: ''
                     @ toFixed1 P (rat_of_int (b - a) / rat_of_int MS_PER_DAY)
                     @ '' days. Try a shorter range like 28 days.''))))"
proof (intro conjI allI impI)
  assume "Date_getTime P startTime = None"
  then show "validateTimeRange P startTime endTime
        = Inl (Error (''Invalid start_time format: '' @ js_String P startTime
                      @ ''. Use RFC3339 format (e.g., 2024-01-01T00:00:00Z)''))"
    by (simp add: validateTimeRange_def)
next
  fix a
  assume "Date_getTime P startTime = Some a \<and> Date_getTime P endTime = None"
  then show "validateTimeRange P startTime endTime
        = Inl (Error (''Invalid end_time format: '' @ js_String P endTime
                      @ ''. Use RFC3339 format (e.g., 2024-01-31T00:00:00Z)''))"
    by (simp add: validateTimeRange_def)
next
  fix a b
  assume p: "Date_getTime P startTime = Some a \<and> Date_getTime P endTime = Some b"
    and r: "a < b \<and> b - a \<le> MAX_TIME_RANGE_DAYS * MS_PER_DAY"
  from p have "validateTimeRange P startTime endTime =
     (if a \<ge> b then Inl (Error ''start_time must be before end_time'')
      else if b - a > MAX_TIME_RANGE_DAYS * MS_PER_DAY
      then Inl (Error (''Time range cannot exceed 30 days. Requested: ''
                     @ toFixed1 P (rat_of_int (b - a) / rat_of_int MS_PER_DAY)
                     @ '' days. Try a shorter range like 28 days.''))
      else Inr ())"
    by (intro validateTimeRange_parsed) simp_all
  with r show "validateTimeRange P startTime endTime = Inr ()" by simp
next
  fix a b
  assume p: "Date_getTime P startTime = Some a \<and> Date_getTime P endTime = Some b"
    and r: "b \<le> a"
  from p have "validateTimeRange P startTime endTime =
     (if a \<ge> b then Inl (Error ''start_time must be before end_time'')
      else if b - a > MAX_TIME_RANGE_DAYS * MS_PER_DAY
      then Inl (Error (''Time range cannot exceed 30 days. Requested: ''
                     @ toFixed1 P (rat_of_int (b - a) / rat_of_int MS_PER_DAY)
                     @ '' days. Try a shorter range like 28 days.''))
      else Inr ())"
    by (intro validateTimeRange_parsed) simp_all
  with r show "validateTimeRange P startTime endTime = Inl (Error ''start_time must be before end_time'')"
    by simp
next
  fix a b
  assume p: "Date_getTime P startTime = Some a \<and> Date_getTime P endTime = Some b"
    and r: "MAX_TIME_RANGE_DAYS * MS_PER_DAY < b - a"
  from r have lt: "a < b" by (simp add: day_ms)
  from p have "validateTimeRange P startTime endTime =
     (if a \<ge> b then Inl (Error ''start_time must be before end_time'')
      else if b - a > MAX_TIME_RANGE_DAYS * MS_PER_DAY
      then Inl (Error (''Time range cannot exceed 30 days. Requested: ''
                     @ toFixed1 P (rat_of_int (b - a) / rat_of_int MS_PER_DAY)
                     @ '' days. Try a shorter range like 28 days.''))
      else Inr ())"
    by (intro validateTimeRange_parsed) simp_all
  with r lt show "validateTimeRange P startTime endTime
             = Inl (Error (''Time range cannot exceed 30 days. Requested: ''
                     @ toFixed1 P (rat_of_int (b - a) / rat_of_int MS_PER_DAY)
                     @ '' days. Try a shorter range like 28 days.''))"
    by simp
qed


theorem validateTimeRange_cases_witness:
  "validateTimeRange sample_platform (JStr ''next week'') (JStr ''2024-01-31T00:00:00Z'')
     = Inl (Error ''Invalid start_time format: next week. Use RFC3339 format (e.g., 2024-01-01T00:00:00Z)'')
   \<and> validateTimeRange sample_platform (JStr ''2024-01-01T00:00:00Z'') (JStr ''next week'')
     = Inl (Error ''Invalid end_time format: next week. Use RFC3339 format (e.g., 2024-01-31T00:00:00Z)'')
   \<and> validateTimeRange sample_platform (JStr ''2024-01-01T00:00:00Z'') (JStr ''2024-01-31T00:00:00Z'')
     = Inr ()
   \<and> validateTimeRange sample_platform (JStr ''2024-01-31T00:00:00Z'') (JStr ''2024-01-01T00:00:00Z'')
     = Inl (Error ''start_time must be before end_time'')
   \<and> validateTimeRange sample_platform (JStr ''2024-02-01T00:00:00Z'') (JStr ''2024-03-10T00:00:00Z'')
     = Inl (Error ''Time range cannot exceed 30 days. Requested: 38.0 days. Try a shorter range like 28 days.'')"
proof -
  let ?P = sample_platform
  have bad: "Date_getTime ?P (JStr ''next week'') = None"
    by (simp add: sample_platform_def sample_dates_def)
  have jan1: "Date_getTime ?P (JStr ''2024-01-01T00:00:00Z'') = Some 1704067200000"
    by (simp add: sample_platform_def sample_dates_def)
  have jan31: "Date_getTime ?P (JStr ''2024-01-31T00:00:00Z'') = Some 1706659200000"
    by (simp add: sample_platform_def sample_dates_def)
  have feb1: "Date_getTime ?P (JStr ''2024-02-01T00:00:00Z'') = Some 1706745600000"
    by (simp add: sample_platform_def sample_dates_def)
  have mar10: "Date_getTime ?P (JStr ''2024-03-10T00:00:00Z'') = Some 1710028800000"
    by (simp add: sample_platform_def sample_dates_def)
  have days: "toFixed1 ?P (rat_of_int (1710028800000 - 1706745600000) / rat_of_int MS_PER_DAY) = ''38.0''"
    by code_simp
  have 1: "validateTimeRange ?P (JStr ''next week'') (JStr ''2024-01-31T00:00:00Z'')
     = Inl (Error ''Invalid start_time format: next week. Use RFC3339 format (e.g., 2024-01-01T00:00:00Z)'')"
    using validateTimeRange_cases[of ?P "JStr ''next week''" "JStr ''2024-01-31T00:00:00Z''"] bad
    by simp
  have 2: "validateTimeRange ?P (JStr ''2024-01-01T00:00:00Z'') (JStr ''next week'')
     = Inl (Error ''Invalid end_time format: next week. Use RFC3339 format (e.g., 2024-01-31T00:00:00Z)'')"
    using validateTimeRange_cases[of ?P "JStr ''2024-01-01T00:00:00Z''" "JStr ''next week''"] bad jan1
    by simp
  have 3: "validateTimeRange ?P (JStr ''2024-01-01T00:00:00Z'') (JStr ''2024-01-31T00:00:00Z'') = Inr ()"
    using validateTimeRange_cases[of ?P "JStr ''2024-01-01T00:00:00Z''" "JStr ''2024-01-31T00:00:00Z''"]
      jan1 jan31 by (simp add: day_ms)
  have 4: "validateTimeRange ?P (JStr ''2024-01-31T00:00:00Z'') (JStr ''2024-01-01T00:00:00Z'')
     = Inl (Error ''start_time must be before end_time'')"
    using validateTimeRange_cases[of ?P "JStr ''2024-01-31T00:00:00Z''" "JStr ''2024-01-01T00:00:00Z''"]
      jan1 jan31 by (simp add: day_ms)
  have 5: "validateTimeRange ?P (JStr ''2024-02-01T00:00:00Z'') (JStr ''2024-03-10T00:00:00Z'')
     = Inl (Error ''Time range cannot exceed 30 days. Requested: 38.0 days. Try a shorter range like 28 days.'')"
    using validateTimeRange_cases[of ?P "JStr ''2024-02-01T00:00:00Z''" "JStr ''2024-03-10T00:00:00Z''"]
      feb1 mar10 days by (simp add: day_ms)
  from 1 2 3 4 5 show ?thesis by blast
qed

section \<open>Search operations\<close>

lemma validateFilterTimeRanges_find:
  "validateFilterTimeRanges P f =
     (case find (fails P) (time_range_pairs f) of
        None \<Rightarrow> Inr ()
      | Some (k, s, e) \<Rightarrow>
          Inl (Error (''Invalid time_range for '' @ k @ '': ''
                      @ message (projl (validateTimeRange P s e)))))"
proof (induction f)
  case Nil
  then show ?case by (simp add: time_range_pairs_def)
next
  case (Cons a f)
  obtain k v where a: "a = (k, v)" by (cases a)
  have tl: "time_range_pairs (a # f) = time_range_pairs [a] @ time_range_pairs f"
    by (simp add: time_range_pairs_def)
  show ?case
  proof (cases "\<exists>fieldObj. v = JObj fieldObj \<and> truthy (get_prop v ''time_range'')
                  \<and> truthy (get_prop (get_prop v ''time_range'') ''start'')
                  \<and> truthy (get_prop (get_prop v ''time_range'') ''end'')")
    case False
    then have "time_range_pairs [a] = []"
      using a by (cases v) (auto simp: time_range_pairs_def Let_def)
    moreover have "validateFilterTimeRanges P (a # f) = validateFilterTimeRanges P f"
      using False a by (cases v) (auto simp: Let_def)
    ultimately show ?thesis using Cons.IH tl by simp
  next
    case True
    then obtain fieldObj where v: "v = JObj fieldObj" by blast
    let ?tr = "get_prop v ''time_range''"
    let ?s = "get_prop ?tr ''start''"
    let ?e = "get_prop ?tr ''end''"
    have pairs: "time_range_pairs [a] = [(k, ?s, ?e)]"
      using True a v by (simp add: time_range_pairs_def Let_def)
    show ?thesis
    proof (cases "validateTimeRange P ?s ?e")
      case (Inl err)
      then have "validateFilterTimeRanges P (a # f)
                   = Inl (Error (''Invalid time_range for '' @ k @ '': '' @ message err))"
        using True a v by (simp add: Let_def)
      then show ?thesis using Inl tl pairs by (simp add: fails_def)
    next
      case (Inr u)
      then have "validateFilterTimeRanges P (a # f) = validateFilterTimeRanges P f"
        using True a v by (simp add: Let_def)
      then show ?thesis using Inr tl pairs Cons.IH by (simp add: fails_def)
    qed
  qed
qed

lemma request_sends:
  "snd (request P method path body net)
     = net @ [\<lparr>http_method = method, http_path = path, http_body = body\<rparr>]"
  by (simp add: request_def Let_def split: http_response.splits)

text \<open>
  Claim C2, as amended. \<^verbatim>\<open>searchIssues\<close> validates, in the order of the fields, every
  time range of the filter (a field whose value is an object that is not an array, with a
  truthy \<^verbatim>\<open>time_range\<close> whose \<^verbatim>\<open>start\<close> and \<^verbatim>\<open>end\<close> are both truthy). When
  \<open>(k, s, e)\<close> is the first one that fails, the call throws the error whose message is
  the message of that failure behind \<^verbatim>\<open>Invalid time_range for k:\<close>, and the network is
  as before: no request has been sent. \<^verbatim>\<open>searchAccounts\<close> and \<^verbatim>\<open>searchContacts\<close>
  validate no time range: whenever the cleaning returns, they send the cleaned filter.
\<close>

theorem search_time_range_validation:
  "(\<forall>k s e. find (fails P) (time_range_pairs f) = Some (k, s, e) \<longrightarrow>
      (\<exists>err. validateTimeRange P s e = Inl err
         \<and> searchIssues P f params net
             = (Inl (Error (''Invalid time_range for '' @ k @ '': '' @ message err)), net)))
   \<and> (\<forall>c. cleanFilter f = Inr c \<longrightarrow>
         snd (searchAccounts P f params net)
           = net @ [\<lparr>http_method = ''POST'', http_path = ''/accounts/search'',
                     http_body = search_body c params\<rparr>]
       \<and> snd (searchContacts P f params net)
           = net @ [\<lparr>http_method = ''POST'', http_path = ''/contacts/search'',
                     http_body = search_body c params\<rparr>])"
proof (intro conjI allI impI)
  fix k s e
  assume found: "find (fails P) (time_range_pairs f) = Some (k, s, e)"
  then have "fails P (k, s, e)" by (auto simp: find_Some_iff)
  then obtain err where err: "validateTimeRange P s e = Inl err"
    by (auto simp: fails_def isl_def)
  have "validateFilterTimeRanges P f
          = Inl (Error (''Invalid time_range for '' @ k @ '': '' @ message err))"
    using found err by (simp add: validateFilterTimeRanges_find)
  then have "searchIssues P f params net
               = (Inl (Error (''Invalid time_range for '' @ k @ '': '' @ message err)), net)"
    by (simp add: searchIssues_def)
  with err show "\<exists>err. validateTimeRange P s e = Inl err
         \<and> searchIssues P f params net
             = (Inl (Error (''Invalid time_range for '' @ k @ '': '' @ message err)), net)"
    by blast
next
  fix c
  assume "cleanFilter f = Inr c"
  then show "snd (searchAccounts P f params net)
           = net @ [\<lparr>http_method = ''POST'', http_path = ''/accounts/search'',
                     http_body = search_body c params\<rparr>]"
    by (simp add: searchAccounts_def request_sends)
next
  fix c
  assume "cleanFilter f = Inr c"
  then show "snd (searchContacts P f params net)
           = net @ [\<lparr>http_method = ''POST'', http_path = ''/contacts/search'',
                     http_body = search_body c params\<rparr>]"
    by (simp add: searchContacts_def request_sends)
qed

theorem search_time_range_validation_witness:
  "find (fails sample_platform) (time_range_pairs wide_filter)
     = Some (''created_at'', JStr ''2024-02-01T00:00:00Z'', JStr ''2024-03-10T00:00:00Z'')
   \<and> searchIssues sample_platform wide_filter None []
     = (Inl (Error ''Invalid time_range for created_at: Time range cannot exceed 30 days. Requested: 38.0 days. Try a shorter range like 28 days.''), [])
   \<and> cleanFilter wide_filter = Inr (Some wide_filter)
   \<and> snd (searchAccounts sample_platform wide_filter None [])
     = [\<lparr>http_method = ''POST'', http_path = ''/accounts/search'',
         http_body = search_body (Some wide_filter) None\<rparr>]"
proof -
  have h: "find (fails sample_platform) (time_range_pairs wide_filter)
     = Some (''created_at'', JStr ''2024-02-01T00:00:00Z'', JStr ''2024-03-10T00:00:00Z'')"
    by code_simp
  have v: "validateTimeRange sample_platform (JStr ''2024-02-01T00:00:00Z'') (JStr ''2024-03-10T00:00:00Z'')
     = Inl (Error ''Time range cannot exceed 30 days. Requested: 38.0 days. Try a shorter range like 28 days.'')"
    by code_simp
  have c: "cleanFilter wide_filter = Inr (Some wide_filter)"
    by code_simp
  note th = search_time_range_validation[of sample_platform wide_filter None "[]"]
  from th h v
  have 1: "searchIssues sample_platform wide_filter None []
     = (Inl (Error ''Invalid time_range for created_at: Time range cannot exceed 30 days. Requested: 38.0 days. Try a shorter range like 28 days.''), [])"
    by auto
  from th c
  have 2: "snd (searchAccounts sample_platform wide_filter None [])
     = [\<lparr>http_method = ''POST'', http_path = ''/accounts/search'',
         http_body = search_body (Some wide_filter) None\<rparr>]"
    by auto
  from h 1 c 2 show ?thesis by simp
qed

text \<open>
  Claim C2 as stated also covers \<^verbatim>\<open>searchAccounts\<close> and \<^verbatim>\<open>searchContacts\<close>. They
  clean the filter and send it: on a filter whose range of 38 days fails the validation,
  both send their request and return its answer.
\<close>

theorem search_unvalidated_counterexample:
  "validateTimeRange sample_platform (JStr ''2024-02-01T00:00:00Z'') (JStr ''2024-03-10T00:00:00Z'')
     = Inl (Error ''Time range cannot exceed 30 days. Requested: 38.0 days. Try a shorter range like 28 days.'')
   \<and> searchAccounts sample_platform wide_filter None []
     = (Inr (JObj [(''data'', JArr []),
                (''pagination'', JObj [(''cursor'', JNull), (''has_next_page'', JBool False)]),
                (''request_id'', JStr ''r1'')]),
        [\<lparr>http_method = ''POST'', http_path = ''/accounts/search'',
          http_body = JObj [(''filter'', JObj wide_filter), (''limit'', JUndefined), (''cursor'', JUndefined)]\<rparr>])
   \<and> searchContacts sample_platform wide_filter None []
     = (Inr (JObj [(''data'', JArr []),
                (''pagination'', JObj [(''cursor'', JNull), (''has_next_page'', JBool False)]),
                (''request_id'', JStr ''r1'')]),
        [\<lparr>http_method = ''POST'', http_path = ''/contacts/search'',
          http_body = JObj [(''filter'', JObj wide_filter), (''limit'', JUndefined), (''cursor'', JUndefined)]\<rparr>])"
  by code_simp

section \<open>Views of a raw record\<close>

lemma toIssueMinimal_entries:
  "toIssueMinimal raw = [
     (''id'', obj_get raw ''id''),
     (''number'', obj_get raw ''number''),
     (''title'', obj_get raw ''title''),
     (''state'', obj_get raw ''state''),
     (''link'', obj_get raw ''link''),
     (''created_at'', obj_get raw ''created_at''),
     (''assignee_id'', extractAssigneeId raw),
     (''account_id'', extractAccountId raw),
     (''tags'', obj_get raw ''tags'')]"
  by (simp add: toIssueMinimal_def spread_def)

lemma toIssueStandard_entries:
  "toIssueStandard raw = toIssueMinimal raw @ [
     (''requester_id'', extractRequesterId raw),
     (''team_id'', extractTeamId raw),
     (''resolution_time'', obj_get raw ''resolution_time''),
     (''latest_message_time'', obj_get raw ''latest_message_time''),
     (''first_response_time'', obj_get raw ''first_response_time''),
     (''customer_portal_visible'', obj_get raw ''customer_portal_visible''),
     (''source'', obj_get raw ''source''),
     (''type'', obj_get raw ''type'')]"
  by (simp add: toIssueStandard_def toIssueMinimal_entries spread_def)

lemma spread_body:
  "spread (toIssueStandard raw) [(''body_html'', v)] = toIssueStandard raw @ [(''body_html'', v)]"
  by (simp add: toIssueStandard_entries toIssueMinimal_entries spread_def)

lemma toAccountMinimal_entries:
  "toAccountMinimal raw = [
     (''id'', obj_get raw ''id''),
     (''name'', obj_get raw ''name''),
     (''primary_domain'', obj_get raw ''primary_domain''),
     (''owner_id'', nullish (opt_chain (obj_get raw ''owner'') ''id'') (obj_get raw ''owner_id'')),
     (''tags'', obj_get raw ''tags'')]"
  by (simp add: toAccountMinimal_def spread_def)

lemma toContactMinimal_entries:
  "toContactMinimal raw = [
     (''id'', obj_get raw ''id''),
     (''name'', obj_get raw ''name''),
     (''email'', obj_get raw ''email''),
     (''account_id'', nullish (opt_chain (obj_get raw ''account'') ''id'') (obj_get raw ''account_id'')),
     (''portal_role'', obj_get raw ''portal_role'')]"
  by (simp add: toContactMinimal_def spread_def)

lemma toAccountStandard_entries:
  "toAccountStandard raw = toAccountMinimal raw @ [
     (''domains'', obj_get raw ''domains''),
     (''created_at'', obj_get raw ''created_at''),
     (''type'', obj_get raw ''type'')]"
  by (simp add: toAccountStandard_def toAccountMinimal_entries spread_def)

lemma toContactStandard_entries:
  "toContactStandard raw = toContactMinimal raw @ [
     (''emails'', obj_get raw ''emails''),
     (''avatar_url'', obj_get raw ''avatar_url''),
     (''created_at'', obj_get raw ''created_at'')]"
  by (simp add: toContactStandard_def toContactMinimal_entries spread_def)

lemma opt_chain_nested: "opt_chain (obj_get raw rel) ''id'' = nested_id raw rel"
  by (cases "obj_get raw rel") (simp_all add: opt_chain_def nested_id_def obj_get_def)

lemma flat_first_eq:
  "(if typeof_string (obj_get raw flat) then obj_get raw flat else nested_id raw rel)
     = flat_first raw flat rel"
  by (cases "obj_get raw flat") (simp_all add: flat_first_def)

text \<open>
  Claim C3, as amended. The issue projectors (Minimal and Standard) take \<^verbatim>\<open>account_id\<close>, \<^verbatim>\<open>assignee_id\<close>,
  \<^verbatim>\<open>requester_id\<close> and \<^verbatim>\<open>team_id\<close> flat first: the flat field when it is a string,
  otherwise the \<^verbatim>\<open>id\<close> of the nested object, otherwise \<^verbatim>\<open>null\<close> (\<^verbatim>\<open>undefined\<close> for
  \<^verbatim>\<open>account_id\<close>). The account and contact projectors take \<^verbatim>\<open>owner_id\<close> and
  \<^verbatim>\<open>account_id\<close> nested first: the \<^verbatim>\<open>id\<close> of the nested object when it is neither
  \<^verbatim>\<open>null\<close> nor \<^verbatim>\<open>undefined\<close>, otherwise the flat field as it is.
\<close>

theorem identifier_extraction:
  "obj_get (toIssueMinimal raw) ''account_id'' = flat_first raw ''account_id'' ''account''
   \<and> obj_get (toIssueMinimal raw) ''assignee_id''
       = nullish (flat_first raw ''assignee_id'' ''assignee'') JNull
   \<and> obj_get (toIssueStandard raw) ''account_id'' = flat_first raw ''account_id'' ''account''
   \<and> obj_get (toIssueStandard raw) ''assignee_id''
       = nullish (flat_first raw ''assignee_id'' ''assignee'') JNull
   \<and> obj_get (toIssueStandard raw) ''requester_id''
       = nullish (flat_first raw ''requester_id'' ''requester'') JNull
   \<and> obj_get (toIssueStandard raw) ''team_id''
       = nullish (flat_first raw ''team_id'' ''team'') JNull
   \<and> obj_get (toAccountMinimal raw) ''owner_id'' = nested_first raw ''owner_id'' ''owner''
   \<and> obj_get (toAccountStandard raw) ''owner_id'' = nested_first raw ''owner_id'' ''owner''
   \<and> obj_get (toContactMinimal raw) ''account_id'' = nested_first raw ''account_id'' ''account''
   \<and> obj_get (toContactStandard raw) ''account_id'' = nested_first raw ''account_id'' ''account''"
proof (intro conjI)
  have nn: "nullish (flat_first raw flat rel) JNull
       = (if typeof_string (obj_get raw flat) then obj_get raw flat
          else nullish (nested_id raw rel) JNull)" for flat rel
    by (cases "obj_get raw flat") (simp_all add: flat_first_def nullish_def)
  show "obj_get (toIssueMinimal raw) ''account_id'' = flat_first raw ''account_id'' ''account''"
    unfolding toIssueMinimal_entries extractAccountId_def opt_chain_nested flat_first_eq
    by (simp add: obj_get_def)
  show "obj_get (toIssueMinimal raw) ''assignee_id''
       = nullish (flat_first raw ''assignee_id'' ''assignee'') JNull"
    unfolding toIssueMinimal_entries extractAssigneeId_def opt_chain_nested nn
    by (simp add: obj_get_def)
  show "obj_get (toIssueStandard raw) ''account_id'' = flat_first raw ''account_id'' ''account''"
    unfolding toIssueStandard_entries toIssueMinimal_entries extractAccountId_def opt_chain_nested
      flat_first_eq
    by (simp add: obj_get_def)
  show "obj_get (toIssueStandard raw) ''assignee_id''
       = nullish (flat_first raw ''assignee_id'' ''assignee'') JNull"
    unfolding toIssueStandard_entries toIssueMinimal_entries extractAssigneeId_def opt_chain_nested nn
    by (simp add: obj_get_def)
  show "obj_get (toIssueStandard raw) ''requester_id''
       = nullish (flat_first raw ''requester_id'' ''requester'') JNull"
    unfolding toIssueStandard_entries toIssueMinimal_entries extractRequesterId_def opt_chain_nested nn
    by (simp add: obj_get_def)
  show "obj_get (toIssueStandard raw) ''team_id''
       = nullish (flat_first raw ''team_id'' ''team'') JNull"
    unfolding toIssueStandard_entries toIssueMinimal_entries extractTeamId_def opt_chain_nested nn
    by (simp add: obj_get_def)
  show "obj_get (toAccountMinimal raw) ''owner_id'' = nested_first raw ''owner_id'' ''owner''"
    unfolding toAccountMinimal_entries opt_chain_nested
    by (simp add: obj_get_def nested_first_def nullish_def)
  show "obj_get (toAccountStandard raw) ''owner_id'' = nested_first raw ''owner_id'' ''owner''"
    unfolding toAccountStandard_entries toAccountMinimal_entries opt_chain_nested
    by (simp add: obj_get_def nested_first_def nullish_def)
  show "obj_get (toContactMinimal raw) ''account_id'' = nested_first raw ''account_id'' ''account''"
    unfolding toContactMinimal_entries opt_chain_nested
    by (simp add: obj_get_def nested_first_def nullish_def)
  show "obj_get (toContactStandard raw) ''account_id'' = nested_first raw ''account_id'' ''account''"
    unfolding toContactStandard_entries toContactMinimal_entries opt_chain_nested
    by (simp add: obj_get_def nested_first_def nullish_def)
qed

theorem identifier_extraction_witness:
  "obj_get (toIssueMinimal sample_issue) ''account_id'' = JStr ''acc_flat''
   \<and> obj_get (toIssueMinimal sample_issue) ''assignee_id'' = JStr ''user_7''
   \<and> obj_get (toIssueStandard sample_issue) ''team_id'' = JNull
   \<and> obj_get (toAccountMinimal [(''owner'', JObj [(''id'', JStr ''user_nested'')])]) ''owner_id''
       = JStr ''user_nested''"
proof -
  have 1: "flat_first sample_issue ''account_id'' ''account'' = JStr ''acc_flat''" by code_simp
  have 2: "nullish (flat_first sample_issue ''assignee_id'' ''assignee'') JNull = JStr ''user_7''"
    by code_simp
  have 3: "nullish (flat_first sample_issue ''team_id'' ''team'') JNull = JNull" by code_simp
  have 4: "nested_first [(''owner'', JObj [(''id'', JStr ''user_nested'')])] ''owner_id'' ''owner''
             = JStr ''user_nested''" by code_simp
  from identifier_extraction[of sample_issue]
       identifier_extraction[of "[(''owner'', JObj [(''id'', JStr ''user_nested'')])]"]
       1 2 3 4
  show ?thesis by simp
qed

text \<open>
  Claim C3 as stated has the flat string win in every projector. With both forms present
  and different, the account and the contact projector return the nested \<^verbatim>\<open>id\<close>; the
  issue projector returns the flat one.
\<close>

theorem nested_wins_counterexample:
  "obj_get (toAccountMinimal [(''id'', JStr ''acc_1''), (''owner_id'', JStr ''user_flat''),
                              (''owner'', JObj [(''id'', JStr ''user_nested'')])]) ''owner_id''
     = JStr ''user_nested''
   \<and> obj_get (toContactMinimal [(''id'', JStr ''con_1''), (''account_id'', JStr ''acc_flat''),
                              (''account'', JObj [(''id'', JStr ''acc_nested'')])]) ''account_id''
     = JStr ''acc_nested''
   \<and> obj_get (toIssueMinimal [(''id'', JStr ''iss_1''), (''account_id'', JStr ''acc_flat''),
                              (''account'', JObj [(''id'', JStr ''acc_nested'')])]) ''account_id''
     = JStr ''acc_flat''"
  by code_simp

lemma stripHtmlAndTruncate_cases:
  "stripHtmlAndTruncate html n =
     (if \<not> truthy html then Inr []
      else if typeof_string html
      then Inr (let text = trim (replace_whitespace (replace_tags (case html of JStr h \<Rightarrow> h | _ \<Rightarrow> [])))
                in if int (length text) \<le> n then text else slice0 text (n - 3) @ ''...'')
      else Inl (TypeError ''html.replace is not a function''))"
  by (cases html) (simp_all add: stripHtmlAndTruncate_def Let_def)

lemma body_absent_Standard: "''body_html'' \<notin> set (own_keys (toIssueStandard raw))"
  by (simp add: toIssueStandard_entries toIssueMinimal_entries own_keys_def)

lemma body_absent_Minimal: "''body_html'' \<notin> set (own_keys (toIssueMinimal raw))"
  by (simp add: toIssueMinimal_entries own_keys_def)

lemma map_of_append_left: "map_of xs k = Some v \<Longrightarrow> map_of (xs @ ys) k = Some v"
  by (simp add: map_add_Some_iff)

text \<open>
  Claim C5. Every field of the Minimal view of a raw issue is in its Standard view with
  the same value, and every field of the Standard view is in its Full view with the same
  value; the Full view has the field \<^verbatim>\<open>body_html\<close>, the Standard and the Minimal view do
  not. \<^verbatim>\<open>toIssueFull\<close> returns unless the raw body is a truthy value that is not a
  string.
\<close>

theorem view_containment:
  "(\<forall>k v. map_of (toIssueMinimal raw) k = Some v \<longrightarrow> map_of (toIssueStandard raw) k = Some v)
   \<and> ''body_html'' \<notin> set (own_keys (toIssueMinimal raw))
   \<and> ''body_html'' \<notin> set (own_keys (toIssueStandard raw))
   \<and> (case toIssueFull raw of
         Inr full \<Rightarrow>
           (\<forall>k v. map_of (toIssueStandard raw) k = Some v \<longrightarrow> map_of full k = Some v)
           \<and> ''body_html'' \<in> set (own_keys full)
       | Inl e \<Rightarrow>
           truthy (obj_get raw ''body_html'') \<and> \<not> typeof_string (obj_get raw ''body_html''))"
proof (intro conjI)
  show "\<forall>k v. map_of (toIssueMinimal raw) k = Some v \<longrightarrow> map_of (toIssueStandard raw) k = Some v"
    unfolding toIssueStandard_entries by (blast intro: map_of_append_left)
  show "''body_html'' \<notin> set (own_keys (toIssueMinimal raw))" by (rule body_absent_Minimal)
  show "''body_html'' \<notin> set (own_keys (toIssueStandard raw))" by (rule body_absent_Standard)
  show "case toIssueFull raw of
         Inr full \<Rightarrow>
           (\<forall>k v. map_of (toIssueStandard raw) k = Some v \<longrightarrow> map_of full k = Some v)
           \<and> ''body_html'' \<in> set (own_keys full)
       | Inl e \<Rightarrow>
           truthy (obj_get raw ''body_html'') \<and> \<not> typeof_string (obj_get raw ''body_html'')"
  proof (cases "stripHtmlAndTruncate (obj_get raw ''body_html'') MAX_BODY_LENGTH")
    case (Inl e)
    then have "truthy (obj_get raw ''body_html'') \<and> \<not> typeof_string (obj_get raw ''body_html'')"
      by (auto simp: stripHtmlAndTruncate_cases split: if_splits)
    then show ?thesis using Inl by (simp add: toIssueFull_def)
  next
    case (Inr body)
    then have full: "toIssueFull raw = Inr (toIssueStandard raw @ [(''body_html'', JStr body)])"
      by (simp add: toIssueFull_def spread_body)
    show ?thesis unfolding full
      by (auto simp: own_keys_def intro: map_of_append_left)
  qed
qed

theorem view_containment_witness:
  "map_of (toIssueMinimal sample_issue) ''title'' = Some (JStr ''Login fails'')
   \<and> map_of (toIssueStandard sample_issue) ''title'' = Some (JStr ''Login fails'')
   \<and> \<not> isl (toIssueFull sample_issue)
   \<and> map_of (projr (toIssueFull sample_issue)) ''title'' = Some (JStr ''Login fails'')
   \<and> ''body_html'' \<in> set (own_keys (projr (toIssueFull sample_issue)))"
proof -
  have m: "map_of (toIssueMinimal sample_issue) ''title'' = Some (JStr ''Login fails'')"
    by code_simp
  have r: "\<not> isl (toIssueFull sample_issue)" by code_simp
  then obtain full where full: "toIssueFull sample_issue = Inr full"
    by (cases "toIssueFull sample_issue") auto
  note vc = view_containment[of sample_issue]
  from vc m have s: "map_of (toIssueStandard sample_issue) ''title'' = Some (JStr ''Login fails'')"
    by blast
  from vc full s have "map_of full ''title'' = Some (JStr ''Login fails'')
      \<and> ''body_html'' \<in> set (own_keys full)"
    by simp
  with m s r full show ?thesis by simp
qed

text \<open>
  Claim C10. For a raw issue whose \<^verbatim>\<open>body_html\<close> is \<^verbatim>\<open>null\<close>, \<^verbatim>\<open>undefined\<close>, absent
  or the empty string, \<^verbatim>\<open>toIssueFull\<close> returns a view whose \<^verbatim>\<open>body_html\<close> is the empty
  string; and the \<^verbatim>\<open>body_html\<close> of every Full view is a string.
\<close>

theorem full_body_is_string:
  "(obj_get raw ''body_html'' = JNull \<or> obj_get raw ''body_html'' = JUndefined
      \<or> obj_get raw ''body_html'' = JStr [] \<longrightarrow>
      (\<exists>full. toIssueFull raw = Inr full \<and> map_of full ''body_html'' = Some (JStr [])))
   \<and> (\<forall>full. toIssueFull raw = Inr full \<longrightarrow> (\<exists>s. map_of full ''body_html'' = Some (JStr s)))"
proof (intro conjI impI allI)
  assume "obj_get raw ''body_html'' = JNull \<or> obj_get raw ''body_html'' = JUndefined
      \<or> obj_get raw ''body_html'' = JStr []"
  then have "stripHtmlAndTruncate (obj_get raw ''body_html'') MAX_BODY_LENGTH = Inr []"
    by (auto simp: stripHtmlAndTruncate_def)
  then have "toIssueFull raw = Inr (toIssueStandard raw @ [(''body_html'', JStr [])])"
    by (simp add: toIssueFull_def spread_body)
  moreover have "map_of (toIssueStandard raw @ [(''body_html'', JStr [])]) ''body_html'' = Some (JStr [])"
    by (simp add: toIssueStandard_entries toIssueMinimal_entries)
  ultimately show "\<exists>full. toIssueFull raw = Inr full \<and> map_of full ''body_html'' = Some (JStr [])"
    by blast
next
  fix full
  assume "toIssueFull raw = Inr full"
  then obtain body where "full = toIssueStandard raw @ [(''body_html'', JStr body)]"
    by (auto simp: toIssueFull_def spread_body split: sum.splits)
  then have "map_of full ''body_html'' = Some (JStr body)"
    by (simp add: toIssueStandard_entries toIssueMinimal_entries)
  then show "\<exists>s. map_of full ''body_html'' = Some (JStr s)" by blast
qed

theorem full_body_is_string_witness:
  "obj_get ((''body_html'', JNull) # sample_issue) ''body_html'' = JNull
   \<and> \<not> isl (toIssueFull ((''body_html'', JNull) # sample_issue))
   \<and> map_of (projr (toIssueFull ((''body_html'', JNull) # sample_issue))) ''body_html'' = Some (JStr [])
   \<and> \<not> isl (toIssueFull sample_issue)
   \<and> map_of (projr (toIssueFull sample_issue)) ''body_html'' = Some (JStr ''Hi there'')"
proof -
  let ?raw = "(''body_html'', JNull) # sample_issue"
  have h: "obj_get ?raw ''body_html'' = JNull" by code_simp
  from full_body_is_string[of ?raw] h
  obtain full where full: "toIssueFull ?raw = Inr full" "map_of full ''body_html'' = Some (JStr [])"
    by blast
  have r: "\<not> isl (toIssueFull sample_issue)" by code_simp
  have b: "map_of (projr (toIssueFull sample_issue)) ''body_html'' = Some (JStr ''Hi there'')"
    by code_simp
  from h full r b show ?thesis by simp
qed

section \<open>Stripped text\<close>

subsection \<open>Tags\<close>

lemma set_tl_dropWhile: "set (tl (dropWhile P xs)) \<subseteq> set xs"
proof
  fix x
  assume "x \<in> set (tl (dropWhile P xs))"
  then have "x \<in> set (dropWhile P xs)" by (cases "dropWhile P xs") auto
  then show "x \<in> set xs" by (rule set_dropWhileD)
qed

lemma set_replace_tags: "set (replace_tags s) \<subseteq> insert (CHR '' '') (set s)"
proof (induction s rule: replace_tags.induct)
  case 1
  then show ?case by simp
next
  case (2 c cs)
  show ?case
  proof (cases "c = CHR ''<'' \<and> CHR ''>'' \<in> set cs")
    case True
    with 2(1) set_tl_dropWhile[of "\<lambda>x. x \<noteq> CHR ''>''" cs] show ?thesis by auto
  next
    case False
    with 2(2) show ?thesis by auto
  qed
qed

lemma no_tag_replace_tags: "\<not> has_tag (replace_tags s)"
proof (induction s rule: replace_tags.induct)
  case 1
  then show ?case by simp
next
  case (2 c cs)
  show ?case
  proof (cases "c = CHR ''<'' \<and> CHR ''>'' \<in> set cs")
    case True
    with 2(1) show ?thesis by simp
  next
    case False
    have "CHR ''>'' \<in> set (replace_tags cs) \<Longrightarrow> CHR ''>'' \<in> set cs"
      using set_replace_tags[of cs] by auto
    with False 2(2) show ?thesis by auto
  qed
qed

lemma has_tag_filter: "has_tag s \<longleftrightarrow> has_tag (filter angle s)"
  by (induction s) (auto simp: angle_def)

lemma angle_not_space: "angle c \<Longrightarrow> \<not> is_space c"
  by (auto simp: angle_def is_space_def)

lemma filter_dropWhile_disjoint:
  "(\<And>x. P x \<Longrightarrow> \<not> Q x) \<Longrightarrow> filter Q (dropWhile P xs) = filter Q xs"
  by (induction xs) auto

lemma filter_angle_replace_whitespace: "filter angle (replace_whitespace s) = filter angle s"
proof (induction s rule: replace_whitespace.induct)
  case 1
  then show ?case by simp
next
  case (2 c cs)
  have d: "filter angle (dropWhile is_space cs) = filter angle cs"
    using angle_not_space by (intro filter_dropWhile_disjoint) blast
  have sp: "\<not> angle (CHR '' '')" by (simp add: angle_def)
  show ?case
  proof (cases "is_space c")
    case True
    then have "\<not> angle c" using angle_not_space by blast
    with True 2(1) d sp show ?thesis by simp
  next
    case False
    with 2(2) show ?thesis by simp
  qed
qed

lemma filter_angle_trim: "filter angle (trim s) = filter angle s"
proof -
  have a: "\<And>xs. filter angle (dropWhile is_space xs) = filter angle xs"
    using angle_not_space by (intro filter_dropWhile_disjoint) blast
  show ?thesis
    unfolding trim_def by (simp add: a rev_filter[symmetric])
qed

lemma has_tag_take: "has_tag (take k s) \<Longrightarrow> has_tag s"
proof (induction s arbitrary: k)
  case Nil
  then show ?case by simp
next
  case (Cons c cs)
  show ?case
  proof (cases k)
    case 0
    with Cons.prems show ?thesis by simp
  next
    case (Suc j)
    with Cons.prems have "(c = CHR ''<'' \<and> CHR ''>'' \<in> set (take j cs)) \<or> has_tag (take j cs)"
      by simp
    then show ?thesis using Cons.IH[of j] set_take_subset[of j cs] by auto
  qed
qed

lemma has_tag_ellipsis: "has_tag (s @ ''...'') \<longleftrightarrow> has_tag s"
proof -
  have "filter angle (s @ ''...'') = filter angle s" by (simp add: angle_def)
  then show ?thesis using has_tag_filter[of "s @ ''...''"] has_tag_filter[of s] by simp
qed

lemma no_tag_text: "\<not> has_tag (trim (replace_whitespace (replace_tags h)))"
proof -
  have "filter angle (trim (replace_whitespace (replace_tags h))) = filter angle (replace_tags h)"
    by (simp add: filter_angle_trim filter_angle_replace_whitespace)
  then show ?thesis
    using has_tag_filter[of "trim (replace_whitespace (replace_tags h))"]
      has_tag_filter[of "replace_tags h"] no_tag_replace_tags[of h] by simp
qed

subsection \<open>White space\<close>

lemma collapsed_Cons:
  "collapsed (c # xs) \<longleftrightarrow>
     (is_space c \<longrightarrow> c = CHR '' '' \<and> (xs \<noteq> [] \<longrightarrow> \<not> is_space (hd xs))) \<and> collapsed xs"
  by (cases xs) auto

lemma replace_whitespace_Nil: "replace_whitespace s = [] \<longleftrightarrow> s = []"
  by (cases s) auto

lemma hd_replace_whitespace:
  "s \<noteq> [] \<Longrightarrow> \<not> is_space (hd s) \<Longrightarrow> hd (replace_whitespace s) = hd s"
  by (cases s) auto

lemma collapsed_replace_whitespace: "collapsed (replace_whitespace s)"
proof (induction s rule: replace_whitespace.induct)
  case 1
  then show ?case by simp
next
  case (2 c cs)
  show ?case
  proof (cases "is_space c")
    case True
    let ?r = "dropWhile is_space cs"
    have "replace_whitespace ?r \<noteq> [] \<longrightarrow> \<not> is_space (hd (replace_whitespace ?r))"
    proof
      assume "replace_whitespace ?r \<noteq> []"
      then have ne: "?r \<noteq> []" by (simp add: replace_whitespace_Nil)
      then have ns: "\<not> is_space (hd ?r)" by (rule hd_dropWhile)
      with ne show "\<not> is_space (hd (replace_whitespace ?r))"
        by (simp add: hd_replace_whitespace)
    qed
    with True 2(1) show ?thesis by (simp add: collapsed_Cons del: collapsed.simps)
  next
    case False
    with 2(2) show ?thesis by (simp add: collapsed_Cons del: collapsed.simps)
  qed
qed

lemma collapsed_dropWhile: "collapsed s \<Longrightarrow> collapsed (dropWhile P s)"
  by (induction s) (auto simp: collapsed_Cons simp del: collapsed.simps)

lemma hd_take: "take k xs \<noteq> [] \<Longrightarrow> hd (take k xs) = hd xs"
  by (cases xs; cases k) auto

lemma collapsed_take: "collapsed s \<Longrightarrow> collapsed (take k s)"
proof (induction s arbitrary: k)
  case Nil
  then show ?case by simp
next
  case (Cons c cs)
  show ?case
  proof (cases k)
    case 0
    then show ?thesis by simp
  next
    case (Suc j)
    have "take j cs \<noteq> [] \<Longrightarrow> hd (take j cs) = hd cs" by (rule hd_take)
    moreover have "take j cs \<noteq> [] \<Longrightarrow> cs \<noteq> []" by auto
    ultimately show ?thesis using Cons Suc
      by (auto simp: collapsed_Cons simp del: collapsed.simps)
  qed
qed

lemma trim_take: "\<exists>k. trim s = take k (dropWhile is_space s)"
proof -
  let ?ys = "dropWhile is_space s"
  have "rev (dropWhile is_space (rev ?ys))
          = rev (drop (length (takeWhile is_space (rev ?ys))) (rev ?ys))"
    by (simp add: dropWhile_eq_drop)
  also have "\<dots> = take (length ?ys - length (takeWhile is_space (rev ?ys))) ?ys"
    by (simp add: drop_rev)
  finally show ?thesis unfolding trim_def by blast
qed

lemma collapsed_trim:
  assumes "collapsed s"
  shows "collapsed (trim s)"
proof -
  obtain k where k: "trim s = take k (dropWhile is_space s)" using trim_take by blast
  have "collapsed (dropWhile is_space s)" using assms by (rule collapsed_dropWhile)
  then have "collapsed (take k (dropWhile is_space s))" by (rule collapsed_take)
  with k show ?thesis by simp
qed

lemma trimmed_trim: "trimmed (trim s)"
proof (cases "trim s = []")
  case True
  then show ?thesis by (simp add: trimmed_def)
next
  case False
  let ?ys = "dropWhile is_space s"
  let ?zs = "dropWhile is_space (rev ?ys)"
  from False have zs: "?zs \<noteq> []" by (simp add: trim_def)
  have ys: "?ys \<noteq> []"
  proof
    assume a: "?ys = []"
    have "?zs = []" unfolding a by simp
    with zs show False by simp
  qed
  have l: "last (trim s) = hd ?zs" unfolding trim_def using zs by (simp add: last_rev)
  have "\<not> is_space (hd ?zs)" using zs by (rule hd_dropWhile)
  with l have 1: "\<not> is_space (last (trim s))" by simp
  obtain k where k: "trim s = take k ?ys" using trim_take by blast
  with False have "hd (trim s) = hd ?ys" by (simp add: hd_take)
  moreover have "\<not> is_space (hd ?ys)" using ys by (rule hd_dropWhile)
  ultimately have 2: "\<not> is_space (hd (trim s))" by simp
  from 1 2 show ?thesis by (simp add: trimmed_def)
qed

lemma collapsed_append:
  "collapsed xs \<Longrightarrow> collapsed ys \<Longrightarrow> (ys \<noteq> [] \<longrightarrow> \<not> is_space (hd ys)) \<Longrightarrow> collapsed (xs @ ys)"
proof (induction xs)
  case Nil
  then show ?case by simp
next
  case (Cons c cs)
  have both: "(is_space c \<longrightarrow> c = CHR '' '' \<and> (cs \<noteq> [] \<longrightarrow> \<not> is_space (hd cs))) \<and> collapsed cs"
    using Cons.prems(1) collapsed_Cons[of c cs] by blast
  then have c: "is_space c \<longrightarrow> c = CHR '' '' \<and> (cs \<noteq> [] \<longrightarrow> \<not> is_space (hd cs))"
    and cs: "collapsed cs"
    by blast+
  have rest: "collapsed (cs @ ys)" using cs Cons.prems(2,3) by (rule Cons.IH)
  have nxt: "cs @ ys \<noteq> [] \<longrightarrow> is_space c \<longrightarrow> \<not> is_space (hd (cs @ ys))"
  proof (cases "cs = []")
    case True
    with Cons.prems(3) show ?thesis by simp
  next
    case False
    with c show ?thesis by simp
  qed
  have "collapsed (c # (cs @ ys))"
    using c rest nxt collapsed_Cons[of c "cs @ ys"] by blast
  then show ?case by simp
qed

lemma dot_not_space: "\<not> is_space (CHR ''.'')"
  by (simp add: is_space_def)

lemma collapsed_ellipsis: "collapsed xs \<Longrightarrow> collapsed (xs @ ''...'')"
  by (rule collapsed_append) (simp_all add: dot_not_space)

lemma trimmed_ellipsis:
  assumes "trimmed text"
  shows "trimmed (take k text @ ''...'')"
proof -
  have l: "\<not> is_space (last (take k text @ ''...''))" by (simp add: dot_not_space)
  have h: "\<not> is_space (hd (take k text @ ''...''))"
  proof (cases "take k text = []")
    case True
    show ?thesis unfolding True by (simp add: dot_not_space)
  next
    case False
    then have "text \<noteq> []" by auto
    with assms have "\<not> is_space (hd text)" by (simp add: trimmed_def)
    moreover from False have "hd (take k text @ ''...'') = hd text" by (simp add: hd_take)
    ultimately show ?thesis by simp
  qed
  from l h show ?thesis by (simp add: trimmed_def)
qed

subsection \<open>Truncation\<close>

lemma stripHtmlAndTruncate_string:
  "0 \<le> n \<Longrightarrow> stripHtmlAndTruncate (JStr h) n =
     Inr (if int (length (trim (replace_whitespace (replace_tags h)))) \<le> n
          then trim (replace_whitespace (replace_tags h))
          else slice0 (trim (replace_whitespace (replace_tags h))) (n - 3) @ ''...'')"
proof (cases "h = []")
  case True
  have "trim (replace_whitespace (replace_tags [])) = []" by (simp add: trim_def)
  with True show ?thesis if "0 \<le> n"
    using that by (simp add: stripHtmlAndTruncate_def)
next
  case False
  then show ?thesis by (simp add: stripHtmlAndTruncate_def Let_def)
qed

lemma text_properties:
  "\<not> has_tag (trim (replace_whitespace (replace_tags h)))"
  "collapsed (trim (replace_whitespace (replace_tags h)))"
  "trimmed (trim (replace_whitespace (replace_tags h)))"
  by (simp_all add: no_tag_text collapsed_trim collapsed_replace_whitespace trimmed_trim)

lemma stripHtmlAndTruncate_value:
  assumes "3 \<le> n"
  shows "stripHtmlAndTruncate (JStr html) n =
     Inr (if int (length (trim (replace_whitespace (replace_tags html)))) \<le> n
          then trim (replace_whitespace (replace_tags html))
          else take (nat (n - 3)) (trim (replace_whitespace (replace_tags html))) @ ''...'')"
proof -
  have "slice0 (trim (replace_whitespace (replace_tags html))) (n - 3)
          = take (nat (n - 3)) (trim (replace_whitespace (replace_tags html)))"
    using assms by (simp add: slice0_def)
  then show ?thesis using assms by (simp add: stripHtmlAndTruncate_string)
qed

lemma truncated_length:
  assumes "3 \<le> n"
  shows "int (length (if int (length t) \<le> n then t else take (nat (n - 3)) t @ ''...'')) \<le> n"
  using assms by simp

text \<open>
  Claim C6. For a string \<open>html\<close> and a bound \<open>n\<close> of at least 3 (the callers use 500,
  2000 and at least 100), \<^verbatim>\<open>stripHtmlAndTruncate(html, n)\<close> returns a string of length at
  most \<open>n\<close>. It is the stripped, collapsed and trimmed text when that has at most \<open>n\<close>
  characters, and otherwise its first \<open>n - 3\<close> characters followed by three dots. The
  result has no tag markup, every white space in it is a single space not next to another,
  and it neither starts nor ends with white space.
\<close>

theorem stripHtmlAndTruncate_bounded:
  assumes "3 \<le> n"
  shows "\<exists>out. stripHtmlAndTruncate (JStr html) n = Inr out
           \<and> int (length out) \<le> n
           \<and> (if int (length (trim (replace_whitespace (replace_tags html)))) \<le> n
               then out = trim (replace_whitespace (replace_tags html))
               else out = take (nat (n - 3)) (trim (replace_whitespace (replace_tags html))) @ ''...'')
           \<and> \<not> has_tag out \<and> collapsed out \<and> trimmed out"
proof -
  let ?t = "trim (replace_whitespace (replace_tags html))"
  let ?out = "if int (length ?t) \<le> n then ?t else take (nat (n - 3)) ?t @ ''...''"
  have run: "stripHtmlAndTruncate (JStr html) n = Inr ?out"
    using assms by (rule stripHtmlAndTruncate_value)
  have len: "int (length ?out) \<le> n"
    using assms by (rule truncated_length)
  have nt: "\<not> has_tag ?out"
    using text_properties(1)[of html] has_tag_take[of "nat (n - 3)" ?t]
    by (auto simp: has_tag_ellipsis)
  have co: "collapsed ?out"
    using text_properties(2)[of html] by (auto intro: collapsed_ellipsis collapsed_take)
  have tr: "trimmed ?out"
    using text_properties(3)[of html] by (auto intro: trimmed_ellipsis)
  from run len nt co tr show ?thesis by (cases "int (length ?t) \<le> n") simp_all
qed

theorem stripHtmlAndTruncate_bounded_witness:
  "(3::int) \<le> 500
   \<and> stripHtmlAndTruncate (JStr ''<p>Hi <b>there</b></p>'') 500 = Inr ''Hi there''
   \<and> (3::int) \<le> 10
   \<and> stripHtmlAndTruncate (JStr ''<div>Hello   wonderful <i>world</i></div>'') 10 = Inr ''Hello w...''"
proof -
  have a: "(3::int) \<le> 500" and b: "(3::int) \<le> 10" by simp_all
  have t1: "trim (replace_whitespace (replace_tags ''<p>Hi <b>there</b></p>'')) = ''Hi there''"
    by code_simp
  have t2: "trim (replace_whitespace (replace_tags ''<div>Hello   wonderful <i>world</i></div>''))
              = ''Hello wonderful world''"
    by code_simp
  from stripHtmlAndTruncate_bounded[OF a, of "''<p>Hi <b>there</b></p>''"] t1
  have 1: "stripHtmlAndTruncate (JStr ''<p>Hi <b>there</b></p>'') 500 = Inr ''Hi there''"
    by auto
  from stripHtmlAndTruncate_bounded[OF b, of "''<div>Hello   wonderful <i>world</i></div>''"] t2
  have 2: "stripHtmlAndTruncate (JStr ''<div>Hello   wonderful <i>world</i></div>'') 10 = Inr ''Hello w...''"
    by auto
  from a b 1 2 show ?thesis by simp
qed

text \<open>A \<^verbatim>\<open>>\<close> that closes no tag stays in the text.\<close>

lemma stripHtmlAndTruncate_stray_bracket:
  "stripHtmlAndTruncate (JStr ''<b>x</b> 3 > 2'') 500 = Inr ''x 3 > 2''"
  by code_simp

section \<open>The issue body tool\<close>

lemma issue_body_no_content:
  "\<not> truthy (get_prop raw ''body_html'') \<Longrightarrow>
   issue_body P raw max_length = Text ''No body content available.''"
  by (simp add: issue_body_def)

lemma issue_body_string:
  assumes "get_prop raw ''body_html'' = JStr h" "h \<noteq> []"
    and "stripHtmlAndTruncate (JStr h) (case max_length of None \<Rightarrow> 2000 | Some n \<Rightarrow> n) = Inr truncated"
  shows "issue_body P raw max_length =
     Text (''Issue #'' @ js_String P (get_prop raw ''number'') @ '' body (''
           @ show_nat (length (trim (replace_whitespace (replace_tags h))))
           @ '' chars total, showing '' @ show_nat (length truncated) @ ''):''
           @ [newline, newline] @ truncated)"
proof -
  let ?maxLen = "case max_length of None \<Rightarrow> 2000 | Some n \<Rightarrow> n"
  let ?t = "trim (replace_whitespace (replace_tags h))"
  have "truncated = (if int (length ?t) > ?maxLen then slice0 ?t (?maxLen - 3) @ ''...'' else ?t)"
    using assms(2,3) by (auto simp: stripHtmlAndTruncate_def Let_def)
  then show ?thesis
    using assms(1,2) by (simp add: issue_body_def Let_def)
qed

text \<open>
  Claim C9. \<^verbatim>\<open>pylon_get_issue_body\<close> accepts a \<^verbatim>\<open>max_length\<close> from 100 to 10000 and
  rejects any other before a request is sent; without one the maximum is 2000. For a
  record with a body it returns the stripped text when that has at most the maximum of
  characters, and otherwise its first \<open>maximum - 3\<close> characters followed by three dots,
  with the number of characters of the stripped text before truncation and the number
  shown; for a record without a body it returns the no-content message.
\<close>

theorem pylon_get_issue_body_result:
  assumes "fetch P \<lparr>http_method = ''GET'', http_path = ''/issues/'' @ ident, http_body = JUndefined\<rparr>
             = HttpOk result"
    and "get_prop result ''data'' = JObj raw"
    and "maxLen = (case max_length of None \<Rightarrow> 2000 | Some n \<Rightarrow> n)"
  shows "(\<not> max_length_schema max_length \<longrightarrow>
            pylon_get_issue_body P ident max_length net = (InvalidArguments, net))
       \<and> (max_length_schema max_length \<longrightarrow>
            (\<not> truthy (obj_get raw ''body_html'') \<longrightarrow>
               pylon_get_issue_body P ident max_length net
                 = (Text ''No body content available.'',
                    net @ [\<lparr>http_method = ''GET'', http_path = ''/issues/'' @ ident, http_body = JUndefined\<rparr>]))
          \<and> (\<forall>h stripped truncated.
                obj_get raw ''body_html'' = JStr h \<and> h \<noteq> []
                \<and> stripped = trim (replace_whitespace (replace_tags h))
                \<and> truncated = (if int (length stripped) \<le> maxLen then stripped
                                else take (nat (maxLen - 3)) stripped @ ''...'') \<longrightarrow>
                  stripHtmlAndTruncate (JStr h) maxLen = Inr truncated
                  \<and> int (length truncated) \<le> maxLen
                  \<and> pylon_get_issue_body P ident max_length net
                    = (Text (''Issue #'' @ js_String P (obj_get raw ''number'') @ '' body (''
                             @ show_nat (length stripped)
                             @ '' chars total, showing '' @ show_nat (length truncated) @ ''):''
                             @ [newline, newline] @ truncated),
                       net @ [\<lparr>http_method = ''GET'', http_path = ''/issues/'' @ ident, http_body = JUndefined\<rparr>])))"
proof -
  let ?req = "\<lparr>http_method = ''GET'', http_path = ''/issues/'' @ ident, http_body = JUndefined\<rparr>"
  have get: "getIssue P ident net = (Inr result, net @ [?req])"
    using assms(1) by (simp add: getIssue_def request_def)
  have res: "result \<noteq> JUndefined" "result \<noteq> JNull"
    using assms(2) by auto
  have run: "max_length_schema max_length \<Longrightarrow>
      pylon_get_issue_body P ident max_length net = (issue_body P (JObj raw) max_length, net @ [?req])"
    using get res assms(2) by (simp add: pylon_get_issue_body_def)
  have 1: "\<not> max_length_schema max_length \<longrightarrow>
            pylon_get_issue_body P ident max_length net = (InvalidArguments, net)"
    by (simp add: pylon_get_issue_body_def)
  have 2: "max_length_schema max_length \<Longrightarrow> \<not> truthy (obj_get raw ''body_html'') \<Longrightarrow>
            pylon_get_issue_body P ident max_length net = (Text ''No body content available.'', net @ [?req])"
    using run by (simp add: issue_body_no_content obj_get_def)
  have 3: "stripHtmlAndTruncate (JStr h) maxLen = Inr truncated
             \<and> int (length truncated) \<le> maxLen
             \<and> pylon_get_issue_body P ident max_length net
                 = (Text (''Issue #'' @ js_String P (obj_get raw ''number'') @ '' body (''
                          @ show_nat (length stripped)
                          @ '' chars total, showing '' @ show_nat (length truncated) @ ''):''
                          @ [newline, newline] @ truncated),
                    net @ [?req])"
    if ok: "max_length_schema max_length" and h: "obj_get raw ''body_html'' = JStr h" "h \<noteq> []"
      and s: "stripped = trim (replace_whitespace (replace_tags h))"
      and tr: "truncated = (if int (length stripped) \<le> maxLen then stripped
                            else take (nat (maxLen - 3)) stripped @ ''...'')"
    for h stripped truncated
  proof -
    have three: "3 \<le> maxLen"
      using ok assms(3) by (cases max_length) (simp_all add: max_length_schema_def)
    have t: "stripHtmlAndTruncate (JStr h) maxLen = Inr truncated"
      using stripHtmlAndTruncate_value[OF three, of h] s tr by simp
    have len: "int (length truncated) \<le> maxLen"
      using truncated_length[OF three, of stripped] tr by simp
    have "issue_body P (JObj raw) max_length =
       Text (''Issue #'' @ js_String P (get_prop (JObj raw) ''number'') @ '' body (''
           @ show_nat (length (trim (replace_whitespace (replace_tags h))))
           @ '' chars total, showing '' @ show_nat (length truncated) @ ''):''
           @ [newline, newline] @ truncated)"
      using h t assms(3) by (intro issue_body_string) (simp_all add: obj_get_def)
    with run[OF ok] t len s show ?thesis by (simp add: obj_get_def)
  qed
  show ?thesis
    apply (intro conjI impI allI)
    subgoal using 1 by simp
    subgoal using 2 by simp
    subgoal for h stripped truncated using 3[of h stripped truncated] by blast
    subgoal for h stripped truncated using 3[of h stripped truncated] by blast
    subgoal for h stripped truncated using 3[of h stripped truncated] by blast
    done
qed

theorem pylon_get_issue_body_result_witness:
  "pylon_get_issue_body body_service ''iss_1'' (Some 50) [] = (InvalidArguments, [])
   \<and> pylon_get_issue_body body_service ''iss_1'' None []
       = (Text (''Issue #42 body (8 chars total, showing 8):'' @ [newline, newline] @ ''Hi there''),
          [\<lparr>http_method = ''GET'', http_path = ''/issues/iss_1'', http_body = JUndefined\<rparr>])
   \<and> pylon_get_issue_body body_service ''iss_2'' (Some 100) []
       = (Text (''Issue #43 body (150 chars total, showing 100):'' @ [newline, newline]
                @ replicate 97 (CHR ''a'') @ ''...''),
          [\<lparr>http_method = ''GET'', http_path = ''/issues/iss_2'', http_body = JUndefined\<rparr>])
   \<and> pylon_get_issue_body body_service ''iss_3'' None []
       = (Text ''No body content available.'',
          [\<lparr>http_method = ''GET'', http_path = ''/issues/iss_3'', http_body = JUndefined\<rparr>])"
proof -
  let ?P = "body_service"
  let ?req = "\<lambda>ident. \<lparr>http_method = ''GET'', http_path = ''/issues/'' @ ident, http_body = JUndefined\<rparr>"
  let ?h1 = "''<p>Hi <b>there</b></p>''"
  let ?h2 = "''<p>'' @ replicate 150 (CHR ''a'') @ ''</p>''"
  let ?t1 = "trim (replace_whitespace (replace_tags ?h1))"
  let ?t2 = "trim (replace_whitespace (replace_tags ?h2))"
  let ?c1 = "if int (length ?t1) \<le> 2000 then ?t1 else take (nat (2000 - 3)) ?t1 @ ''...''"
  let ?c2 = "if int (length ?t2) \<le> 100 then ?t2 else take (nat (100 - 3)) ?t2 @ ''...''"
  have f1: "fetch ?P (?req ''iss_1'') = HttpOk (JObj [(''data'', JObj sample_issue)])"
    by (simp add: body_service_def)
  have f2: "fetch ?P (?req ''iss_2'') = HttpOk (JObj [(''data'', JObj long_issue)])"
    by (simp add: body_service_def)
  have f3: "fetch ?P (?req ''iss_3'') = HttpOk (JObj [(''data'', JObj bodiless_issue)])"
    by (simp add: body_service_def)
  have d: "get_prop (JObj [(''data'', JObj raw)]) ''data'' = JObj raw" for raw
    by simp
  have m50: "(50::int) = (case Some 50 of None \<Rightarrow> 2000 | Some n \<Rightarrow> n)"
    and m100: "(100::int) = (case Some 100 of None \<Rightarrow> 2000 | Some n \<Rightarrow> n)"
    and m2000: "(2000::int) = (case None of None \<Rightarrow> 2000 | Some n \<Rightarrow> n)"
    by simp_all
  have bad: "\<not> max_length_schema (Some 50)" by (simp add: max_length_schema_def)
  have ok: "max_length_schema None" "max_length_schema (Some 100)"
    by (simp_all add: max_length_schema_def)
  have b1: "obj_get sample_issue ''body_html'' = JStr ?h1 \<and> ?h1 \<noteq> []"
    by code_simp
  have b2: "obj_get long_issue ''body_html'' = JStr ?h2 \<and> ?h2 \<noteq> []"
    by code_simp
  have b3: "\<not> truthy (obj_get bodiless_issue ''body_html'')"
    by code_simp
  have 1: "pylon_get_issue_body ?P ''iss_1'' (Some 50) [] = (InvalidArguments, [])"
    using pylon_get_issue_body_result[OF f1 d m50, of "[]"] bad by blast
  have "pylon_get_issue_body ?P ''iss_1'' None []
       = (Text (''Issue #'' @ js_String ?P (obj_get sample_issue ''number'') @ '' body (''
                @ show_nat (length ?t1) @ '' chars total, showing '' @ show_nat (length ?c1)
                @ ''):'' @ [newline, newline] @ ?c1),
          [] @ [?req ''iss_1''])"
    using pylon_get_issue_body_result[OF f1 d m2000, of "[]"] ok(1) b1 by blast
  also have "\<dots> = (Text (''Issue #42 body (8 chars total, showing 8):'' @ [newline, newline]
                         @ ''Hi there''), [?req ''iss_1''])"
    by code_simp
  finally have 2: "pylon_get_issue_body ?P ''iss_1'' None []
       = (Text (''Issue #42 body (8 chars total, showing 8):'' @ [newline, newline] @ ''Hi there''),
          [?req ''iss_1''])" .
  have "pylon_get_issue_body ?P ''iss_2'' (Some 100) []
       = (Text (''Issue #'' @ js_String ?P (obj_get long_issue ''number'') @ '' body (''
                @ show_nat (length ?t2) @ '' chars total, showing '' @ show_nat (length ?c2)
                @ ''):'' @ [newline, newline] @ ?c2),
          [] @ [?req ''iss_2''])"
    using pylon_get_issue_body_result[OF f2 d m100, of "[]"] ok(2) b2 by blast
  also have "\<dots> = (Text (''Issue #43 body (150 chars total, showing 100):'' @ [newline, newline]
                         @ replicate 97 (CHR ''a'') @ ''...''), [?req ''iss_2''])"
    by code_simp
  finally have 3: "pylon_get_issue_body ?P ''iss_2'' (Some 100) []
       = (Text (''Issue #43 body (150 chars total, showing 100):'' @ [newline, newline]
                @ replicate 97 (CHR ''a'') @ ''...''), [?req ''iss_2''])" .
  have 4: "pylon_get_issue_body ?P ''iss_3'' None []
       = (Text ''No body content available.'', [] @ [?req ''iss_3''])"
    using pylon_get_issue_body_result[OF f3 d m2000, of "[]"] ok(1) b3 by blast
  from 1 2 3 4 show ?thesis by simp
qed

section \<open>Tables\<close>

lemma chars_distinct:
  "pipe \<noteq> backslash" "pipe \<noteq> newline" "backslash \<noteq> newline"
  "pipe \<noteq> CHR '' ''" "backslash \<noteq> CHR '' ''" "newline \<noteq> CHR '' ''"
  "backslash \<noteq> pipe" "newline \<noteq> pipe" "newline \<noteq> backslash"
  "CHR '' '' \<noteq> pipe" "CHR '' '' \<noteq> backslash" "CHR '' '' \<noteq> newline"
  by (simp_all add: pipe_def backslash_def newline_def)

lemma escaped_text_safe:
  "count_delimiters escaped
     (map (\<lambda>c. if c = newline then CHR '' '' else c)
        (concat (map (\<lambda>c. if c = pipe then [backslash, pipe] else [c]) s)) @ CHR '' '' # rest)
   = count_delimiters False rest"
proof (induction s arbitrary: escaped)
  case Nil
  then show ?case using chars_distinct by simp
next
  case (Cons c s)
  show ?case
  proof (cases "c = pipe")
    case True
    then show ?thesis using Cons.IH[of False] chars_distinct by simp
  next
    case False
    then show ?thesis using Cons.IH chars_distinct by simp
  qed
qed

lemma escaped_text_no_newline:
  "newline \<notin> set (map (\<lambda>c. if c = newline then CHR '' '' else c) xs)"
  using chars_distinct by auto

lemma count_delimiters_space: "count_delimiters escaped (CHR '' '' # rest) = count_delimiters False rest"
  using chars_distinct by simp

lemma safe_cell_escapeCell: "safe_cell (escapeCell value)"
proof (cases "value = None \<or> value = Some []")
  case True
  then have "escapeCell value = []" by (auto simp: escapeCell_def)
  then show ?thesis using chars_distinct by (simp add: safe_cell_def)
next
  case False
  then obtain s where s: "value = Some s" "s \<noteq> []" by auto
  then have e: "escapeCell value = map (\<lambda>c. if c = newline then CHR '' '' else c)
        (concat (map (\<lambda>c. if c = pipe then [backslash, pipe] else [c]) s))"
    by (simp add: escapeCell_def)
  show ?thesis
    unfolding safe_cell_def e using escaped_text_safe escaped_text_no_newline by blast
qed

lemma safe_cell_plain:
  assumes "pipe \<notin> set c" "newline \<notin> set c"
  shows "safe_cell c"
proof -
  have "count_delimiters escaped (c @ CHR '' '' # rest) = count_delimiters False rest"
    for escaped rest
    using assms(1)
  proof (induction c arbitrary: escaped)
    case Nil
    then show ?case using chars_distinct by simp
  next
    case (Cons a c)
    then show ?case by auto
  qed
  with assms(2) show ?thesis by (simp add: safe_cell_def)
qed

lemma set_join: "set (join sep xs) \<subseteq> set sep \<union> \<Union> (set ` set xs)"
  by (induction sep xs rule: join.induct) auto

lemma joined_cells:
  assumes "\<forall>c \<in> set (c # cs). safe_cell c"
  shows "count_delimiters False (join '' | '' (c # cs) @ '' |'') = length (c # cs)"
  using assms
proof (induction cs arbitrary: c)
  case Nil
  then have "count_delimiters False (c @ CHR '' '' # [pipe]) = count_delimiters False [pipe]"
    by (simp add: safe_cell_def)
  then show ?case by (simp add: pipe_def)
next
  case (Cons d ds)
  let ?X = "join '' | '' (d # ds) @ '' |''"
  have "join '' | '' (c # d # ds) @ '' |'' = c @ CHR '' '' # (pipe # CHR '' '' # ?X)"
    by (simp add: pipe_def)
  moreover have "count_delimiters False (c @ CHR '' '' # (pipe # CHR '' '' # ?X))
                   = count_delimiters False (pipe # CHR '' '' # ?X)"
    using Cons.prems by (simp add: safe_cell_def)
  moreover have "count_delimiters False (pipe # CHR '' '' # ?X) = 1 + count_delimiters False ?X"
    using chars_distinct by simp
  moreover have "count_delimiters False ?X = length (d # ds)"
    using Cons.prems by (intro Cons.IH) simp
  ultimately show ?case by simp
qed

lemma delimiters_row_line:
  assumes "row \<noteq> []" "\<forall>c \<in> set row. safe_cell c"
  shows "delimiters (row_line row) = length row + 1"
proof -
  obtain c cs where row: "row = c # cs" using assms(1) by (cases row) auto
  have "row_line row = pipe # CHR '' '' # (join '' | '' (c # cs) @ '' |'')"
    by (simp add: row_line_def row pipe_def)
  moreover have "count_delimiters False (join '' | '' (c # cs) @ '' |'') = length (c # cs)"
    using assms(2) row by (intro joined_cells) simp
  ultimately show ?thesis
    using chars_distinct by (simp add: delimiters_def row)
qed

lemma newline_free_row_line:
  assumes "\<forall>c \<in> set row. safe_cell c"
  shows "newline \<notin> set (row_line row)"
proof -
  have "newline \<notin> set (join '' | '' row)"
    using set_join[of "'' | ''" row] assms by (auto simp: safe_cell_def newline_def)
  then show ?thesis by (simp add: row_line_def newline_def)
qed

lemma lines_of_single: "newline \<notin> set a \<Longrightarrow> lines_of a = [a]"
  by (induction a) auto

lemma lines_of_append: "newline \<notin> set a \<Longrightarrow> lines_of (a @ newline # b) = a # lines_of b"
  by (induction a) auto

lemma lines_of_join:
  "ls \<noteq> [] \<Longrightarrow> \<forall>l \<in> set ls. newline \<notin> set l \<Longrightarrow> lines_of (join [newline] ls) = ls"
proof (induction "[newline]" ls rule: join.induct)
  case 1
  then show ?case by simp
next
  case (2 x)
  then show ?case by (simp add: lines_of_single)
next
  case (3 x y ys)
  then show ?case by (simp add: lines_of_append)
qed

lemma table_shape:
  assumes "rows \<noteq> []" "\<forall>row \<in> set rows. length row = length headers \<and> (\<forall>c \<in> set row. safe_cell c)"
    and "headers \<noteq> []" "\<forall>h \<in> set headers. safe_cell h"
  shows "map delimiters (lines_of (table_of headers rows))
           = replicate (length rows + 2) (length headers + 1)"
proof -
  let ?h = "row_line headers"
  let ?s = "''|'' @ join ''|'' (map (\<lambda>h. ''---'') headers) @ ''|''"
  let ?d = "map row_line rows"
  have t: "table_of headers rows = ?h @ newline # (?s @ newline # join [newline] ?d)"
    by (simp add: table_of_def row_line_def[abs_def] Let_def)
  have nh: "newline \<notin> set ?h" using assms(4) by (rule newline_free_row_line)
  have ns: "newline \<notin> set ?s"
    using set_join[of "''|''" "map (\<lambda>h. ''---'') headers"]
    by (auto simp: newline_def split: if_splits)
  have nd: "\<forall>l \<in> set ?d. newline \<notin> set l"
    using assms(2) newline_free_row_line by auto
  have l1: "lines_of (?h @ newline # (?s @ newline # join [newline] ?d))
              = ?h # lines_of (?s @ newline # join [newline] ?d)"
    using nh by (rule lines_of_append)
  have l2: "lines_of (?s @ newline # join [newline] ?d) = ?s # lines_of (join [newline] ?d)"
    using ns by (rule lines_of_append)
  have l3: "lines_of (join [newline] ?d) = ?d"
    using assms(1) nd by (intro lines_of_join) simp_all
  have "lines_of (table_of headers rows) = ?h # ?s # ?d"
    by (simp only: t l1 l2 l3)
  moreover have "delimiters ?h = length headers + 1"
    using assms(3,4) by (rule delimiters_row_line)
  moreover have "delimiters ?s = length headers + 1"
  proof -
    have "count_delimiters False (join ''|'' (map (\<lambda>h. ''---'') hs) @ ''|'') = length hs"
      if "hs \<noteq> []" for hs :: "string list"
      using that
    proof (induction hs rule: list_nonempty_induct)
      case (single x)
      then show ?case by (simp add: pipe_def backslash_def)
    next
      case (cons x xs)
      then obtain y ys where "xs = y # ys" by (cases xs) auto
      with cons show ?case by (simp add: pipe_def backslash_def)
    qed
    with assms(3) show ?thesis by (simp add: delimiters_def pipe_def backslash_def)
  qed
  moreover have "map delimiters ?d = replicate (length rows) (length headers + 1)"
  proof -
    have "\<forall>row \<in> set rows. delimiters (row_line row) = length headers + 1"
    proof
      fix row assume r: "row \<in> set rows"
      with assms(2) have l: "length row = length headers" and s: "\<forall>c \<in> set row. safe_cell c"
        by auto
      from l assms(3) have "row \<noteq> []" by auto
      from delimiters_row_line[OF this s] l show "delimiters (row_line row) = length headers + 1"
        by simp
    qed
    then show ?thesis by (simp add: map_replicate_const[symmetric] cong: map_cong)
  qed
  ultimately show ?thesis by simp
qed

lemma safe_headers:
  "\<forall>h \<in> set [''#'', ''Title'', ''State'', ''Created'', ''Link'']. safe_cell h"
  "\<forall>h \<in> set [''ID'', ''Name'', ''Domain'', ''Tags'']. safe_cell h"
  "\<forall>h \<in> set [''ID'', ''Name'', ''Email'', ''Account ID'']. safe_cell h"
  by (simp_all add: safe_cell_plain pipe_def newline_def)

lemma safe_or_dash:
  assumes "\<And>l. value = Some l \<Longrightarrow> pipe \<notin> set l \<and> newline \<notin> set l"
  shows "safe_cell (or_dash value)"
proof (cases "value = None \<or> value = Some []")
  case True
  then have "or_dash value = ''-''" by (auto simp: or_dash_def)
  then show ?thesis by (simp add: safe_cell_plain pipe_def newline_def)
next
  case False
  then obtain l where l: "value = Some l" "l \<noteq> []" by auto
  then have "or_dash value = l" by (simp add: or_dash_def)
  with assms[OF l(1)] show ?thesis by (simp add: safe_cell_plain)
qed

text \<open>The accounts and the contacts table escape every cell: each has two more lines than
  views, every line with five delimiters. The issues table has that shape, with six
  delimiters, when no link has a pipe or a line feed.\<close>

lemma formatAccountsAsTable_shape:
  assumes "accounts \<noteq> []"
  shows "map delimiters (lines_of (formatAccountsAsTable accounts))
           = replicate (length accounts + 2) 5"
proof -
  let ?headers = "[''ID'', ''Name'', ''Domain'', ''Tags'']"
  have rows: "\<forall>row \<in> set (map account_row accounts).
                length row = length ?headers \<and> (\<forall>c \<in> set row. safe_cell c)"
    by (auto simp: account_row_def safe_cell_escapeCell)
  have "map delimiters (lines_of (table_of ?headers (map account_row accounts)))
          = replicate (length (map account_row accounts) + 2) (length ?headers + 1)"
    using assms rows safe_headers(2) by (intro table_shape) simp_all
  then show ?thesis using assms by (simp add: formatAccountsAsTable_def)
qed

lemma formatContactsAsTable_shape:
  assumes "contacts \<noteq> []"
  shows "map delimiters (lines_of (formatContactsAsTable contacts))
           = replicate (length contacts + 2) 5"
proof -
  let ?headers = "[''ID'', ''Name'', ''Email'', ''Account ID'']"
  have rows: "\<forall>row \<in> set (map contact_row contacts).
                length row = length ?headers \<and> (\<forall>c \<in> set row. safe_cell c)"
    by (auto simp: contact_row_def safe_cell_escapeCell)
  have "map delimiters (lines_of (table_of ?headers (map contact_row contacts)))
          = replicate (length (map contact_row contacts) + 2) (length ?headers + 1)"
    using assms rows safe_headers(3) by (intro table_shape) simp_all
  then show ?thesis using assms by (simp add: formatContactsAsTable_def)
qed

lemma formatIssuesAsTable_shape:
  assumes "issues \<noteq> []"
    and "\<forall>issue \<in> set issues. \<forall>l. issue_link issue = Some l \<longrightarrow> pipe \<notin> set l \<and> newline \<notin> set l"
  shows "map delimiters (lines_of (formatIssuesAsTable P issues))
           = replicate (length issues + 2) 6"
proof -
  let ?headers = "[''#'', ''Title'', ''State'', ''Created'', ''Link'']"
  have rows: "\<forall>row \<in> set (map (issue_row P) issues).
                length row = length ?headers \<and> (\<forall>c \<in> set row. safe_cell c)"
  proof
    fix row assume "row \<in> set (map (issue_row P) issues)"
    then obtain issue where i: "issue \<in> set issues" "row = issue_row P issue" by auto
    have "safe_cell (or_dash (issue_link issue))"
      using assms(2) i(1) by (intro safe_or_dash) blast
    with i(2) show "length row = length ?headers \<and> (\<forall>c \<in> set row. safe_cell c)"
      by (simp add: issue_row_def safe_cell_escapeCell)
  qed
  have "map delimiters (lines_of (table_of ?headers (map (issue_row P) issues)))
          = replicate (length (map (issue_row P) issues) + 2) (length ?headers + 1)"
    using assms(1) rows safe_headers(1) by (intro table_shape) simp_all
  then show ?thesis using assms(1) by (simp add: formatIssuesAsTable_def)
qed

text \<open>The title is truncated to 60 characters and then escaped.\<close>

lemma title_truncated_then_escaped:
  "issue_row P issue ! 1 = escapeCell (Some (truncate (Some (issue_title issue)) MAX_TITLE_LENGTH))"
  by (simp add: issue_row_def)

text \<open>
  Claim C8. Every cell of a table is to be escaped, so that no value changes the number of
  columns or of rows. The issues table leaves its Link cell as it is: a title with a pipe
  keeps the six delimiters of every line, a link with a pipe gives its row a seventh, and
  a link with a line feed breaks its row in two.
\<close>

theorem formatIssuesAsTable_link_unescaped:
  "map delimiters (lines_of (formatIssuesAsTable sample_platform [plain_issue])) = [6, 6, 6]
   \<and> map delimiters (lines_of (formatIssuesAsTable sample_platform [piped_link_issue])) = [6, 6, 7]
   \<and> map delimiters (lines_of (formatIssuesAsTable sample_platform [broken_link_issue]))
       = [6, 6, 5, 1]"
  by code_simp

end
